theory Spec2Isabelle
  imports Main "HOL-Library.Word"
begin

section \<open>Data model\<close>

text \<open>
  A JavaScript string is a sequence of UTF-16 code units. Titles on the source site are
  mostly outside Latin-1, so a string is modelled as the list of its code units
  (natural numbers) and not as an Isabelle \<open>string\<close>, whose characters are bytes.
  \<open>str\<close> turns an ASCII literal into such a list.
\<close>

type_synonym jsstring = "nat list"

definition str :: "string \<Rightarrow> jsstring" where
  "str s = map of_char s"

text \<open>models/post-image.ts and models/captured-post.ts\<close>

datatype ImageFormat = Png | Jpeg | Webp

record PostImage =
  url :: jsstring
  index :: nat
  width :: "nat option"
  height :: "nat option"
  altText :: "jsstring option"
  format :: "ImageFormat option"

datatype CaptureStatus =
  Captured | PdfGenerating | PdfReady | CaptureUploading | Uploaded | CaptureError

record CapturedPost =
  post_id :: jsstring
  sourceUrl :: jsstring
  title :: jsstring
  description :: jsstring
  authorName :: jsstring
  authorId :: jsstring
  captureTimestamp :: nat
  images :: "PostImage list"
  isVideo :: bool
  videoThumbnail :: "jsstring option"
  post_status :: CaptureStatus

text \<open>
  models/post-queue.ts. Every field of \<open>QueueItemResult\<close> but \<open>completedAt\<close> is
  optional (\<open>None\<close> is \<open>undefined\<close>). Field names that several interfaces of the source share (\<open>id\<close>,
  \<open>status\<close>, \<open>error\<close>, \<open>result\<close>) carry a prefix here, since record fields are
  global constants.
\<close>

datatype QueueItemStatus = Pending | Processing | Completed | Failed

record QueueItemResult =
  pdfBlobUrl :: "jsstring option"
  pdfFilename :: "jsstring option"
  pdfSizeBytes :: "nat option"
  driveFileId :: "jsstring option"
  webViewLink :: "jsstring option"
  completedAt :: nat

record QueueItem =
  item_id :: jsstring
  postId :: jsstring
  post :: CapturedPost
  item_status :: QueueItemStatus
  addedAt :: nat
  startedAt :: "nat option"
  item_result :: "QueueItemResult option"
  item_error :: "jsstring option"
  retryCount :: nat

record PostQueue =
  items :: "QueueItem list"
  totalItems :: nat
  pendingItems :: nat
  processingItems :: nat
  completedItems :: nat
  failedItems :: nat
  createdAt :: nat
  updatedAt :: nat

definition createEmptyQueue :: "nat \<Rightarrow> PostQueue" where
  "createEmptyQueue now =
     \<lparr> items = [], totalItems = 0, pendingItems = 0, processingItems = 0,
       completedItems = 0, failedItems = 0, createdAt = now, updatedAt = now \<rparr>"

section \<open>Queue manager (services/queue-manager.ts)\<close>

text \<open>
  The queue lives under one key of \<open>chrome.storage.session\<close>; the key is absent until
  the first save. Reading gives a copy, so a change that is not saved is lost. The value
  under the key is a \<open>PostQueue\<close>, as the cast in \<open>getQueue\<close> takes it to be; the
  empty array that the install handler of background/shortcuts.ts stores under the same
  key is not a queue and is outside this model.
  \<open>Date.now()\<close> and \<open>crypto.randomUUID()\<close> are inputs of the operation that
  reads them; one operation reads one clock value.
\<close>

type_synonym storage = "PostQueue option"

definition getQueue :: "nat \<Rightarrow> storage \<Rightarrow> PostQueue" where
  "getQueue now st = (case st of Some queue \<Rightarrow> queue | None \<Rightarrow> createEmptyQueue now)"

definition saveQueue :: "PostQueue \<Rightarrow> storage" where
  "saveQueue queue = Some queue"

definition createQueueItem :: "jsstring \<Rightarrow> nat \<Rightarrow> CapturedPost \<Rightarrow> QueueItem" where
  "createQueueItem uuid now p =
     \<lparr> item_id = uuid, postId = post_id p, post = p, item_status = Pending,
       addedAt = now, startedAt = None, item_result = None, item_error = None,
       retryCount = 0 \<rparr>"

definition count_status :: "QueueItemStatus \<Rightarrow> QueueItem list \<Rightarrow> nat" where
  "count_status s xs = length (filter (\<lambda>i. item_status i = s) xs)"

definition recalculateTotals :: "nat \<Rightarrow> PostQueue \<Rightarrow> PostQueue" where
  "recalculateTotals now queue =
     queue\<lparr> totalItems := length (items queue),
            pendingItems := count_status Pending (items queue),
            processingItems := count_status Processing (items queue),
            completedItems := count_status Completed (items queue),
            failedItems := count_status Failed (items queue),
            updatedAt := now \<rparr>"

definition addToQueue ::
  "jsstring \<Rightarrow> nat \<Rightarrow> CapturedPost \<Rightarrow> storage \<Rightarrow> storage \<times> QueueItem" where
  "addToQueue uuid now p st =
     (let queue = getQueue now st in
      case find (\<lambda>item. postId item = post_id p) (items queue) of
        Some existingItem \<Rightarrow> (st, existingItem)
      | None \<Rightarrow>
          (let item = createQueueItem uuid now p;
               queue' = recalculateTotals now (queue\<lparr>items := items queue @ [item]\<rparr>)
           in (saveQueue queue', item)))"

definition removeFromQueue :: "nat \<Rightarrow> jsstring \<Rightarrow> storage \<Rightarrow> storage" where
  "removeFromQueue now itemId st =
     (let queue = getQueue now st;
          queue' = queue\<lparr>items := filter (\<lambda>item. item_id item \<noteq> itemId) (items queue)\<rparr>
      in saveQueue (recalculateTotals now queue'))"

text \<open>
  \<open>Partial<QueueItemResult>\<close>: a key is absent (\<open>None\<close>) or present with a value that
  may itself be \<open>undefined\<close>. The object spread lets a present key of the second object
  win, whatever its value.
\<close>

record PartialResult =
  p_pdfBlobUrl :: "jsstring option option"
  p_pdfFilename :: "jsstring option option"
  p_pdfSizeBytes :: "nat option option"
  p_driveFileId :: "jsstring option option"
  p_webViewLink :: "jsstring option option"
  p_completedAt :: "nat option option"

definition noPartial :: PartialResult where
  "noPartial = \<lparr> p_pdfBlobUrl = None, p_pdfFilename = None, p_pdfSizeBytes = None,
                 p_driveFileId = None, p_webViewLink = None, p_completedAt = None \<rparr>"

definition spread_field :: "'a option \<Rightarrow> 'a option option \<Rightarrow> 'a option" where
  "spread_field old new = (case new of None \<Rightarrow> old | Some v \<Rightarrow> v)"

definition mergeResult ::
  "nat \<Rightarrow> QueueItemResult option \<Rightarrow> PartialResult \<Rightarrow> QueueItemResult" where
  "mergeResult now old new =
     \<lparr> pdfBlobUrl = spread_field (Option.bind old pdfBlobUrl) (p_pdfBlobUrl new),
       pdfFilename = spread_field (Option.bind old pdfFilename) (p_pdfFilename new),
       pdfSizeBytes = spread_field (Option.bind old pdfSizeBytes) (p_pdfSizeBytes new),
       driveFileId = spread_field (Option.bind old driveFileId) (p_driveFileId new),
       webViewLink = spread_field (Option.bind old webViewLink) (p_webViewLink new),
       completedAt = now \<rparr>"

definition updateItem ::
  "nat \<Rightarrow> QueueItemStatus \<Rightarrow> PartialResult option \<Rightarrow> jsstring option \<Rightarrow> QueueItem \<Rightarrow> QueueItem"
  where
  "updateItem now s res err item =
     (let i1 = item\<lparr>item_status := s\<rparr>;
          i2 = (if s = Processing \<and> startedAt i1 = None then i1\<lparr>startedAt := Some now\<rparr> else i1);
          i3 = (case res of None \<Rightarrow> i2
                | Some r \<Rightarrow> i2\<lparr>item_result := Some (mergeResult now (item_result i2) r)\<rparr>)
      in (case err of None \<Rightarrow> i3 | Some e \<Rightarrow> i3\<lparr>item_error := Some e\<rparr>))"

text \<open>
  \<open>queue.items.find\<close> gives the first item with the id, and the assignments change
  that object inside the array: the first match is replaced, the rest stays.
\<close>

fun update_first :: "('a \<Rightarrow> bool) \<Rightarrow> ('a \<Rightarrow> 'a) \<Rightarrow> 'a list \<Rightarrow> 'a list" where
  "update_first P f [] = []"
| "update_first P f (x # xs) = (if P x then f x # xs else x # update_first P f xs)"

definition updateItemStatus ::
  "nat \<Rightarrow> jsstring \<Rightarrow> QueueItemStatus \<Rightarrow> PartialResult option \<Rightarrow> jsstring option \<Rightarrow>
   storage \<Rightarrow> storage" where
  "updateItemStatus now itemId s res err st =
     (let queue = getQueue now st in
      case find (\<lambda>i. item_id i = itemId) (items queue) of
        None \<Rightarrow> st
      | Some item \<Rightarrow>
          saveQueue (recalculateTotals now
            (queue\<lparr>items := update_first (\<lambda>i. item_id i = itemId)
                                (updateItem now s res err) (items queue)\<rparr>)))"

definition clearQueue :: "nat \<Rightarrow> storage \<Rightarrow> storage" where
  "clearQueue now st = saveQueue (createEmptyQueue now)"

definition clearCompletedItems :: "nat \<Rightarrow> storage \<Rightarrow> storage" where
  "clearCompletedItems now st =
     (let queue = getQueue now st;
          queue' = queue\<lparr>items := filter (\<lambda>item. item_status item \<noteq> Completed) (items queue)\<rparr>
      in saveQueue (recalculateTotals now queue'))"

definition getPendingItems :: "nat \<Rightarrow> storage \<Rightarrow> QueueItem list" where
  "getPendingItems now st = filter (\<lambda>item. item_status item = Pending) (items (getQueue now st))"

definition retryItem :: "QueueItem \<Rightarrow> QueueItem" where
  "retryItem item =
     (if item_status item = Failed
      then item\<lparr>item_status := Pending, item_error := None, retryCount := retryCount item + 1\<rparr>
      else item)"

definition retryFailedItems :: "nat \<Rightarrow> storage \<Rightarrow> storage \<times> nat" where
  "retryFailedItems now st =
     (let queue = getQueue now st;
          retriedCount = count_status Failed (items queue) in
      if retriedCount > 0
      then (saveQueue (recalculateTotals now (queue\<lparr>items := map retryItem (items queue)\<rparr>)),
            retriedCount)
      else (st, retriedCount))"

text \<open>The six mutating operations, each with the clock value and identifier it reads.\<close>

datatype queue_op =
    AddToQueue jsstring nat CapturedPost
  | RemoveFromQueue nat jsstring
  | UpdateItemStatus nat jsstring QueueItemStatus "PartialResult option" "jsstring option"
  | ClearQueue nat
  | ClearCompletedItems nat
  | RetryFailedItems nat

fun apply_op :: "storage \<Rightarrow> queue_op \<Rightarrow> storage" where
  "apply_op st (AddToQueue uuid now p) = fst (addToQueue uuid now p st)"
| "apply_op st (RemoveFromQueue now itemId) = removeFromQueue now itemId st"
| "apply_op st (UpdateItemStatus now itemId s res err) = updateItemStatus now itemId s res err st"
| "apply_op st (ClearQueue now) = clearQueue now st"
| "apply_op st (ClearCompletedItems now) = clearCompletedItems now st"
| "apply_op st (RetryFailedItems now) = fst (retryFailedItems now st)"

definition run_ops :: "queue_op list \<Rightarrow> storage \<Rightarrow> storage" where
  "run_ops ops st = foldl apply_op st ops"

text \<open>The derived counts of a queue are the counts of its item list.\<close>

definition counts_recomputed :: "PostQueue \<Rightarrow> bool" where
  "counts_recomputed queue \<longleftrightarrow>
     totalItems queue = length (items queue) \<and>
     pendingItems queue = count_status Pending (items queue) \<and>
     processingItems queue = count_status Processing (items queue) \<and>
     completedItems queue = count_status Completed (items queue) \<and>
     failedItems queue = count_status Failed (items queue) \<and>
     pendingItems queue + processingItems queue + completedItems queue + failedItems queue
       = totalItems queue"

definition storage_ok :: "storage \<Rightarrow> bool" where
  "storage_ok st = (case st of None \<Rightarrow> True | Some queue \<Rightarrow> counts_recomputed queue)"

section \<open>Drive uploader (services/drive-uploader.ts)\<close>

text \<open>
  A \<open>catch\<close> receives any thrown value; the code reads \<open>message\<close> when the value is an
  \<open>Error\<close> and uses \<open>Unknown error\<close> otherwise.
\<close>

datatype thrown = JsError jsstring | NonError

definition error_message :: "thrown \<Rightarrow> jsstring" where
  "error_message e = (case e of JsError m \<Rightarrow> m | NonError \<Rightarrow> str ''Unknown error'')"

text \<open>A template literal prints a non-negative integer in decimal.\<close>

function show_nat :: "nat \<Rightarrow> jsstring" where
  "show_nat n = (if n < 10 then [48 + n] else show_nat (n div 10) @ [48 + n mod 10])"
  by pat_completeness auto
termination
  by (relation "measure (\<lambda>n. n)") auto

text \<open>\<open>String.prototype.includes\<close>: the second string occurs somewhere in the first.\<close>

fun js_includes :: "'a list \<Rightarrow> 'a list \<Rightarrow> bool" where
  "js_includes [] sub = (sub = [])"
| "js_includes (x # xs) sub = (take (length sub) (x # xs) = sub \<or> js_includes xs sub)"

record UploadResult =
  success :: bool
  fileId :: "jsstring option"
  upload_webViewLink :: "jsstring option"
  webContentLink :: "jsstring option"
  upload_error :: "jsstring option"

record UploadOptions =
  folderId :: "jsstring option"
  maxRetries :: "nat option"
  accessToken :: jsstring

text \<open>
  What \<open>fetch\<close> gives for one request: it rejects (a network failure), or it resolves
  to a response with \<open>ok\<close>, \<open>status\<close> and a body whose \<open>json()\<close> either rejects or
  gives the fields the code reads (\<open>error.message\<close>, \<open>id\<close>, \<open>webViewLink\<close>,
  \<open>webContentLink\<close>).
\<close>

record DriveJson =
  json_error_message :: "jsstring option"
  json_id :: "jsstring option"
  json_webViewLink :: "jsstring option"
  json_webContentLink :: "jsstring option"

record DriveResponse =
  response_ok :: bool
  response_status :: nat
  response_json :: "thrown + DriveJson"

datatype fetch_outcome = FetchRejects thrown | FetchResolves DriveResponse

definition performUpload :: "fetch_outcome \<Rightarrow> thrown + UploadResult" where
  "performUpload f =
     (case f of
        FetchRejects e \<Rightarrow> Inl e
      | FetchResolves response \<Rightarrow>
          if \<not> response_ok response then
            (let errorData_message =
                   (case response_json response of Inl e \<Rightarrow> None
                    | Inr d \<Rightarrow> json_error_message d);
                 fallback = str ''HTTP '' @ show_nat (response_status response);
                 errorMessage =
                   (case errorData_message of None \<Rightarrow> fallback
                    | Some m \<Rightarrow> if m = [] then fallback else m)
             in Inl (JsError (show_nat (response_status response) @ str '': '' @ errorMessage)))
          else
            (case response_json response of
               Inl e \<Rightarrow> Inl e
             | Inr d \<Rightarrow>
                 Inr \<lparr> success = True, fileId = json_id d,
                       upload_webViewLink = json_webViewLink d,
                       webContentLink = json_webContentLink d, upload_error = None \<rparr>))"

definition uploadFailure :: "jsstring \<Rightarrow> UploadResult" where
  "uploadFailure m =
     \<lparr> success = False, fileId = None, upload_webViewLink = None, webContentLink = None,
       upload_error = Some m \<rparr>"

definition isAuthMessage :: "jsstring \<Rightarrow> bool" where
  "isAuthMessage errorMessage \<longleftrightarrow>
     js_includes errorMessage (str ''401'') \<or> js_includes errorMessage (str ''403'')"

text \<open>
  The retry loop of \<open>uploadToDrive\<close>, from \<open>attempt\<close> on. \<open>fetch k\<close> is what the
  network gives at the \<open>k\<close>-th attempt. The result comes with the delays awaited, in
  milliseconds and in order, and with the number of calls of \<open>performUpload\<close>.
\<close>

function uploadAttempts ::
  "(nat \<Rightarrow> fetch_outcome) \<Rightarrow> nat \<Rightarrow> nat \<Rightarrow> UploadResult \<times> nat list \<times> nat" where
  "uploadAttempts fetch maxR attempt =
     (if attempt \<le> maxR then
        (case performUpload (fetch attempt) of
           Inr result \<Rightarrow> (result, [], 1)
         | Inl e \<Rightarrow>
             if isAuthMessage (error_message e) then (uploadFailure (error_message e), [], 1)
             else if attempt = maxR then
               (uploadFailure (str ''Upload failed after '' @ show_nat maxR
                    @ str '' attempts: '' @ error_message e), [], 1)
             else
               (case uploadAttempts fetch maxR (attempt + 1) of
                  (r, ds, n) \<Rightarrow> (r, 2 ^ attempt * 1000 # ds, n + 1)))
      else (uploadFailure (str ''Max retries exceeded''), [], 0))"
  by pat_completeness auto
termination
  by (relation "measure (\<lambda>(fetch, maxR, attempt). maxR + 1 - attempt)") auto

text \<open>The destructuring default \<open>maxRetries = 3\<close>.\<close>

definition maxRetriesOr3 :: "UploadOptions \<Rightarrow> nat" where
  "maxRetriesOr3 options = (case maxRetries options of None \<Rightarrow> 3 | Some m \<Rightarrow> m)"

definition uploadToDrive ::
  "(nat \<Rightarrow> fetch_outcome) \<Rightarrow> UploadOptions \<Rightarrow> UploadResult \<times> nat list \<times> nat" where
  "uploadToDrive fetch options = uploadAttempts fetch (maxRetriesOr3 options) 1"

text \<open>The post that the integration tests build (\<open>createMockPost\<close> in tests/integration/batch.test.ts).\<close>

definition createMockPost :: "string \<Rightarrow> string \<Rightarrow> CapturedPost" where
  "createMockPost i t =
     \<lparr> post_id = str i, sourceUrl = str ''https://www.xiaohongshu.com/explore/'' @ str i,
       title = str t, description = str ''Description for '' @ str t,
       authorName = str ''TestUser'', authorId = str ''user-123'', captureTimestamp = 0,
       images = [\<lparr> url = str ''https://sns-img.xhscdn.com/'' @ str i @ str ''.jpg'', index = 0,
                   width = Some 800, height = Some 600, altText = None, format = None \<rparr>],
       isVideo = False, videoThumbnail = None, post_status = Captured \<rparr>"










section \<open>File name of the PDF (\<open>generateFilename\<close> in services/pdf-generator.ts)\<close>













section \<open>Base64 conversion (services/pdf-generator.ts)\<close>

text \<open>
  \<open>btoa\<close> and \<open>atob\<close> belong to the platform, not to the repository. They are
  modelled from the HTML standard: \<open>btoa\<close> fails on a code unit above 255 and
  otherwise is Base64 (RFC 4648) with padding; \<open>atob\<close> is the forgiving decoder. It
  removes ASCII white space, removes one or two final \<open>=\<close> when the length is a
  multiple of 4, fails when the length then leaves remainder 1 or a code unit is outside
  the alphabet, and decodes, dropping the bits that do not fill a byte.
\<close>

definition b64_char :: "nat \<Rightarrow> nat" where
  "b64_char v =
     (if v < 26 then 65 + v else if v < 52 then 97 + (v - 26)
      else if v < 62 then 48 + (v - 52) else if v = 62 then 43 else 47)"

definition b64_value :: "nat \<Rightarrow> nat option" where
  "b64_value c =
     (if 65 \<le> c \<and> c \<le> 90 then Some (c - 65)
      else if 97 \<le> c \<and> c \<le> 122 then Some (c - 71)
      else if 48 \<le> c \<and> c \<le> 57 then Some (c + 4)
      else if c = 43 then Some 62
      else if c = 47 then Some 63
      else None)"

fun b64_encode :: "nat list \<Rightarrow> nat list" where
  "b64_encode (a # b # c # rest) =
     b64_char (a div 4) # b64_char ((a mod 4) * 16 + b div 16)
       # b64_char ((b mod 16) * 4 + c div 64) # b64_char (c mod 64) # b64_encode rest"
| "b64_encode [a, b] =
     [b64_char (a div 4), b64_char ((a mod 4) * 16 + b div 16), b64_char ((b mod 16) * 4), 61]"
| "b64_encode [a] = [b64_char (a div 4), b64_char ((a mod 4) * 16), 61, 61]"
| "b64_encode [] = []"

definition btoa :: "jsstring \<Rightarrow> jsstring option" where
  "btoa s = (if list_all (\<lambda>c. c \<le> 255) s then Some (b64_encode s) else None)"

definition isAsciiWhitespace :: "nat \<Rightarrow> bool" where
  "isAsciiWhitespace c \<longleftrightarrow> c = 9 \<or> c = 10 \<or> c = 12 \<or> c = 13 \<or> c = 32"

definition strip_padding :: "nat list \<Rightarrow> nat list" where
  "strip_padding d =
     (if d \<noteq> [] \<and> last d = 61
      then (if butlast d \<noteq> [] \<and> last (butlast d) = 61 then butlast (butlast d)
            else butlast d)
      else d)"

fun b64_decode_values :: "nat list \<Rightarrow> nat list" where
  "b64_decode_values (p # q # r # s # rest) =
     (p * 4 + q div 16) # ((q mod 16) * 16 + r div 4) # ((r mod 4) * 64 + s)
       # b64_decode_values rest"
| "b64_decode_values [p, q, r] = [p * 4 + q div 16, (q mod 16) * 16 + r div 4]"
| "b64_decode_values [p, q] = [p * 4 + q div 16]"
| "b64_decode_values [p] = []"
| "b64_decode_values [] = []"

fun those_values :: "nat list \<Rightarrow> nat list option" where
  "those_values [] = Some []"
| "those_values (c # cs) =
     (case b64_value c of None \<Rightarrow> None
      | Some v \<Rightarrow> (case those_values cs of None \<Rightarrow> None | Some vs \<Rightarrow> Some (v # vs)))"

definition atob :: "jsstring \<Rightarrow> jsstring option" where
  "atob s =
     (let d0 = filter (\<lambda>c. \<not> isAsciiWhitespace c) s;
          d = (if length d0 mod 4 = 0 then strip_padding d0 else d0)
      in if length d mod 4 = 1 then None
         else (case those_values d of None \<Rightarrow> None | Some vs \<Rightarrow> Some (b64_decode_values vs)))"

text \<open>
  \<open>uint8ArrayToBase64\<close>: the loop appends the code units of one chunk of at most
  \<open>0x8000\<close> bytes per round; \<open>String.fromCharCode\<close> gives the code unit with the
  value of the byte. A failure of \<open>btoa\<close> is the result \<open>None\<close>.
\<close>

definition chunkSize :: nat where
  "chunkSize = 32768"

definition subarray :: "8 word list \<Rightarrow> nat \<Rightarrow> nat \<Rightarrow> 8 word list" where
  "subarray bytes b e = take (e - b) (drop b bytes)"

definition fromCharCode :: "8 word list \<Rightarrow> jsstring" where
  "fromCharCode chunk = map unat chunk"

function binaryLoop :: "8 word list \<Rightarrow> nat \<Rightarrow> jsstring \<Rightarrow> jsstring" where
  "binaryLoop bytes i binary =
     (if i < length bytes
      then binaryLoop bytes (i + chunkSize)
             (binary @ fromCharCode (subarray bytes i (min (i + chunkSize) (length bytes))))
      else binary)"
  by pat_completeness auto
termination
  by (relation "measure (\<lambda>(bytes, i, binary). length bytes - i)") (auto simp: chunkSize_def)

definition uint8ArrayToBase64 :: "8 word list \<Rightarrow> jsstring option" where
  "uint8ArrayToBase64 bytes = btoa (binaryLoop bytes 0 [])"

text \<open>
  \<open>base64ToUint8Array\<close>: a store into a \<open>Uint8Array\<close> keeps the value modulo 256.
\<close>

definition base64ToUint8Array :: "jsstring \<Rightarrow> 8 word list option" where
  "base64ToUint8Array base64 =
     (case atob base64 of None \<Rightarrow> None | Some binary \<Rightarrow> Some (map of_nat binary))"

text \<open>
  The two parts of an encoding, for the proofs: the 6-bit values of the bytes and the
  padding that completes the last group.
\<close>

fun sextets :: "nat list \<Rightarrow> nat list" where
  "sextets (a # b # c # rest) =
     (a div 4) # ((a mod 4) * 16 + b div 16) # ((b mod 16) * 4 + c div 64) # (c mod 64)
       # sextets rest"
| "sextets [a, b] = [a div 4, (a mod 4) * 16 + b div 16, (b mod 16) * 4]"
| "sextets [a] = [a div 4, (a mod 4) * 16]"
| "sextets [] = []"

fun padding :: "nat list \<Rightarrow> nat list" where
  "padding (a # b # c # rest) = padding rest"
| "padding [a, b] = [61]"
| "padding [a] = [61, 61]"
| "padding [] = []"

section \<open>Batch processor (services/batch-processor.ts)\<close>

datatype Phase = Idle | GeneratingPdf | Uploading | Complete

record BatchProgress =
  percentage :: nat
  completed :: nat
  total :: nat
  successCount :: nat
  failedCount :: nat
  currentItem :: "jsstring option"
  phase :: Phase
  cancelled :: bool

text \<open>
  \<open>BatchProcessorOptions\<close>. The callback is an observer: \<open>onProgress\<close> says whether
  one is given. \<open>maxRetries\<close> is taken as a natural number.
\<close>

record BatchProcessorOptions =
  batch_uploadToDrive :: bool
  batch_folderId :: "jsstring option"
  onProgress :: bool
  continueOnError :: "bool option"
  batch_maxRetries :: "nat option"

text \<open>The two private flags of a \<open>BatchProcessor\<close>.\<close>

record BatchProcessor =
  this_cancelled :: bool
  this_processing :: bool

definition cancel :: "BatchProcessor \<Rightarrow> BatchProcessor" where
  "cancel this = (if this_processing this then this\<lparr>this_cancelled := True\<rparr> else this)"

definition isProcessing :: "BatchProcessor \<Rightarrow> bool" where
  "isProcessing this = this_processing this"

text \<open>models/generated-pdf.ts\<close>

record GeneratedPdf =
  capturedPostId :: jsstring
  pdfBase64 :: jsstring
  filename :: jsstring
  sizeBytes :: nat
  generatedAt :: nat
  pageCount :: nat
  imagesIncluded :: bool
  failedImageCount :: nat

text \<open>models/auth-state.ts\<close>

record AuthState =
  auth_accessToken :: "jsstring option"
  expiresAt :: "nat option"
  userEmail :: "jsstring option"
  isAuthenticated :: bool

definition DEFAULT_AUTH_STATE :: AuthState where
  "DEFAULT_AUTH_STATE =
     \<lparr> auth_accessToken = None, expiresAt = None, userEmail = None, isAuthenticated = False \<rparr>"

text \<open>
  services/google-auth.ts. The state is read from the key \<open>auth\<close> of the session
  storage, which may be absent.
\<close>

definition getAuthState :: "AuthState option \<Rightarrow> AuthState" where
  "getAuthState auth = (case auth of None \<Rightarrow> DEFAULT_AUTH_STATE | Some a \<Rightarrow> a)"

definition EXPIRATION_BUFFER_MS :: nat where
  "EXPIRATION_BUFFER_MS = 5 * 60 * 1000"

text \<open>
  \<open>Date.now() >= authState.expiresAt - EXPIRATION_BUFFER_MS\<close>, with the buffer moved to
  the other side, since the difference may be negative. An \<open>expiresAt\<close> of \<open>null\<close> or
  0 is falsy.
\<close>

definition isTokenExpired :: "nat \<Rightarrow> AuthState \<Rightarrow> bool" where
  "isTokenExpired now authState =
     (case expiresAt authState of
        None \<Rightarrow> True
      | Some t \<Rightarrow> if t = 0 then True else t \<le> now + EXPIRATION_BUFFER_MS)"

text \<open>
  What \<open>chrome.identity.getAuthToken\<close> hands to its callback:
  \<open>chrome.runtime.lastError\<close>, which is unset or an object whose \<open>message\<close> may be
  missing, and the token, which may be undefined.
\<close>

record AuthTokenResult =
  runtime_lastError :: "jsstring option option"
  callback_token :: "jsstring option"

text \<open>
  \<open>getAccessToken\<close>, from the value of \<open>Date.now()\<close>, the stored state and what
  the identity API gives. It returns the stored token when the state is authenticated, the token is a
  non-empty string and it has not expired. Otherwise it asks the identity API: an error
  there rejects with \<open>AUTH_CANCELLED\<close> or with the error's message, a missing or empty
  token rejects with \<open>No token received\<close>, and a token is returned after the new state
  has been saved. The saved state is what a later call reads; the environment below
  gives every call its own stored state, so it covers that and any change made from
  outside in between.
\<close>

definition getAccessToken :: "nat \<Rightarrow> AuthState option \<Rightarrow> AuthTokenResult \<Rightarrow> thrown + jsstring" where
  "getAccessToken now auth identity =
     (let authState = getAuthState auth;
          stored = (case auth_accessToken authState of
                      None \<Rightarrow> None
                    | Some t \<Rightarrow>
                        if isAuthenticated authState \<and> t \<noteq> [] \<and> \<not> isTokenExpired now authState
                        then Some t else None)
      in case stored of
           Some t \<Rightarrow> Inr t
         | None \<Rightarrow>
             (case runtime_lastError identity of
                Some message \<Rightarrow>
                  (let error = (case message of
                                  None \<Rightarrow> str ''Authentication failed''
                                | Some m \<Rightarrow> if m = [] then str ''Authentication failed'' else m)
                   in if js_includes error (str ''not approve'') \<or> js_includes error (str ''cancel'')
                      then Inl (JsError (str ''AUTH_CANCELLED''))
                      else Inl (JsError error))
              | None \<Rightarrow>
                  (case callback_token identity of
                     None \<Rightarrow> Inl (JsError (str ''No token received''))
                   | Some token \<Rightarrow>
                       if token = [] then Inl (JsError (str ''No token received''))
                       else Inr token)))"

text \<open>
  What the collaborators of one call of \<open>processItem\<close> do: \<open>generatePdf\<close> throws or
  returns, the session storage holds an authentication state or none, \<open>Date.now()\<close>
  has a value when \<open>getAccessToken\<close> reads it, the identity API answers a request for
  a token, and \<open>fetch\<close> answers the upload attempts.
\<close>

record attempt_env =
  generatePdf_outcome :: "thrown + GeneratedPdf"
  session_auth :: "AuthState option"
  auth_clock :: nat
  getAuthToken_outcome :: AuthTokenResult
  fetch_outcomes :: "nat \<Rightarrow> fetch_outcome"

text \<open>
  The environment of a run: \<open>env_attempt i k\<close> is the environment of attempt \<open>k\<close>
  (from 0) on the \<open>i\<close>-th item of the snapshot (from 0); \<open>env_cancel i\<close> says
  whether \<open>cancel()\<close> was called since the previous item boundary and before the
  boundary of item \<open>i\<close>.
\<close>

record run_env =
  env_attempt :: "nat \<Rightarrow> nat \<Rightarrow> attempt_env"
  env_cancel :: "nat \<Rightarrow> bool"

text \<open>
  What a run does, in order: a call of the progress callback with a copy of the progress
  at that moment, a wait (in ms), the start of an attempt on an item, a request for a
  token.
\<close>

datatype event =
    ProgressReported BatchProgress
  | Waited nat
  | Attempt jsstring
  | TokenRequested

text \<open>
  The state a run threads through: the session storage, the flags of the processor, the
  \<open>progress\<close> object, the events so far, and the clock, which a wait advances.
\<close>

record run_state =
  rs_storage :: storage
  rs_this :: BatchProcessor
  rs_progress :: BatchProgress
  rs_events :: "event list"
  rs_now :: nat

definition report :: "BatchProcessorOptions \<Rightarrow> run_state \<Rightarrow> run_state" where
  "report opts s =
     (if onProgress opts
      then s\<lparr>rs_events := rs_events s @ [ProgressReported (rs_progress s)]\<rparr>
      else s)"

definition delay :: "nat \<Rightarrow> run_state \<Rightarrow> run_state" where
  "delay ms s = s\<lparr>rs_events := rs_events s @ [Waited ms], rs_now := rs_now s + ms\<rparr>"

definition setPhase :: "Phase \<Rightarrow> run_state \<Rightarrow> run_state" where
  "setPhase ph s = s\<lparr>rs_progress := (rs_progress s)\<lparr>phase := ph\<rparr>\<rparr>"

definition store :: "(nat \<Rightarrow> storage \<Rightarrow> storage) \<Rightarrow> run_state \<Rightarrow> run_state" where
  "store f s = s\<lparr>rs_storage := f (rs_now s) (rs_storage s)\<rparr>"

text \<open>
  The message of the exception that \<open>atob\<close> throws is the platform's; the model fixes
  one.
\<close>

definition atobError :: thrown where
  "atobError = JsError (str ''InvalidCharacterError'')"

text \<open>\<open>uploadResult.error || 'Upload failed'\<close>\<close>

definition uploadErrorMessage :: "UploadResult \<Rightarrow> jsstring" where
  "uploadErrorMessage r =
     (case upload_error r of None \<Rightarrow> str ''Upload failed''
      | Some m \<Rightarrow> if m = [] then str ''Upload failed'' else m)"

definition processItem ::
  "BatchProcessorOptions \<Rightarrow> attempt_env \<Rightarrow> QueueItem \<Rightarrow> run_state \<Rightarrow> (thrown + bool) \<times> run_state"
  where
  "processItem opts env item s0 =
     (let s1 = store (\<lambda>now. updateItemStatus now (item_id item) Processing None None)
                 (s0\<lparr>rs_events := rs_events s0 @ [Attempt (item_id item)]\<rparr>);
          s2 = report opts (setPhase GeneratingPdf s1)
      in case generatePdf_outcome env of
           Inl e \<Rightarrow> (Inl e, s2)
         | Inr pdfResult \<Rightarrow>
             (case base64ToUint8Array (pdfBase64 pdfResult) of
                None \<Rightarrow> (Inl atobError, s2)
              | Some pdfBytes \<Rightarrow>
                  (let s3 = store (\<lambda>now. updateItemStatus now (item_id item) Processing
                                (Some (noPartial\<lparr>p_pdfFilename := Some (Some (filename pdfResult)),
                                                 p_pdfSizeBytes := Some (Some (sizeBytes pdfResult))\<rparr>))
                                None) s2
                   in if batch_uploadToDrive opts then
                        (let s4 = report opts (setPhase Uploading s3);
                             s5 = s4\<lparr>rs_events := rs_events s4 @ [TokenRequested]\<rparr>
                         in case getAccessToken (auth_clock env) (session_auth env)
                                   (getAuthToken_outcome env) of
                              Inl e \<Rightarrow> (Inl e, s5)
                            | Inr token \<Rightarrow>
                                if token = [] then (Inl (JsError (str ''Not authenticated'')), s5)
                                else
                                  (case uploadToDrive (fetch_outcomes env)
                                          \<lparr> folderId = batch_folderId opts, maxRetries = None,
                                            accessToken = token \<rparr> of
                                     (uploadResult, delays, n) \<Rightarrow>
                                       (let s6 = s5\<lparr>rs_events := rs_events s5 @ map Waited delays,
                                                     rs_now := rs_now s5 + sum_list delays\<rparr>
                                        in if \<not> success uploadResult
                                           then (Inl (JsError (uploadErrorMessage uploadResult)), s6)
                                           else (Inr True,
                                                 store (\<lambda>now. updateItemStatus now (item_id item)
                                                          Processing
                                                          (Some (noPartial\<lparr>
                                                             p_driveFileId := Some (fileId uploadResult),
                                                             p_webViewLink :=
                                                               Some (upload_webViewLink uploadResult)\<rparr>))
                                                          None) s6))))
                      else (Inr True, s3))))"

text \<open>The destructuring defaults \<open>continueOnError = true\<close> and \<open>maxRetries = 1\<close>.\<close>

definition continueOnErrorOrTrue :: "BatchProcessorOptions \<Rightarrow> bool" where
  "continueOnErrorOrTrue opts = (case continueOnError opts of None \<Rightarrow> True | Some b \<Rightarrow> b)"

definition maxRetriesOr1 :: "BatchProcessorOptions \<Rightarrow> nat" where
  "maxRetriesOr1 opts = (case batch_maxRetries opts of None \<Rightarrow> 1 | Some m \<Rightarrow> m)"

text \<open>
  The retry loop of one item, from \<open>attempt\<close> on. It returns \<open>success\<close>,
  \<open>lastError\<close> and the state.
\<close>

function retryLoop ::
  "BatchProcessorOptions \<Rightarrow> (nat \<Rightarrow> attempt_env) \<Rightarrow> QueueItem \<Rightarrow> nat \<Rightarrow> nat \<Rightarrow>
   jsstring option \<Rightarrow> run_state \<Rightarrow> bool \<times> jsstring option \<times> run_state" where
  "retryLoop opts envs item maxR attempt lastError s =
     (if attempt < maxR then
        (case processItem opts (envs attempt) item s of
           (Inr ok, s') \<Rightarrow>
             if ok then (True, lastError, s')
             else retryLoop opts envs item maxR (attempt + 1) lastError s'
         | (Inl e, s') \<Rightarrow>
             retryLoop opts envs item maxR (attempt + 1) (Some (error_message e))
               (if attempt < maxR - 1 then delay (1000 * (attempt + 1)) s' else s'))
      else (False, lastError, s))"
  by pat_completeness auto
termination
  by (relation "measure (\<lambda>(opts, envs, item, maxR, attempt, lastError, s). maxR - attempt)") auto

text \<open>
  \<open>Math.round((completed / total) * 100)\<close> for \<open>total > 0\<close>, as the code computes it.
  The operands are JavaScript numbers, so the quotient and the product are IEEE 754
  double-precision operations: each gives the exact result rounded to the nearest double,
  a tie going to the even significand. A positive double is a pair \<open>(m, e)\<close> with value
  \<open>m / 2 ^ e\<close> and \<open>2 ^ 52 \<le> m \<le> 2 ^ 53\<close>; zero is \<open>(0, 0)\<close>. \<open>toDouble n d\<close> is the
  double nearest to the fraction \<open>n / d\<close>: \<open>bitlen\<close> is the number of binary digits,
  \<open>k\<close> or \<open>k + 1\<close> is the exponent that brings the fraction into
  \<open>[2 ^ 52, 2 ^ 53)\<close>, and \<open>roundHalfEven\<close> rounds the scaled fraction to an integer.
  The counts are integers below \<open>2 ^ 53\<close> (lengths of arrays and counters), which are
  doubles themselves; the values that occur lie between \<open>2 ^ -53\<close> and \<open>2 ^ 53\<close>, far
  from overflow and from the subnormal range, so the exponent is unbounded in the model.
  \<open>Math.round\<close> gives the integer nearest to the double, a half going upwards.
\<close>

fun bitlen :: "nat \<Rightarrow> nat" where
  "bitlen n = (if n = 0 then 0 else Suc (bitlen (n div 2)))"

declare bitlen.simps [simp del]

definition roundHalfEven :: "nat \<Rightarrow> nat \<Rightarrow> nat" where
  "roundHalfEven n d =
     (let q = n div d; r = n mod d in
      if 2 * r < d then q else if d < 2 * r then q + 1 else if even q then q else q + 1)"

definition toDouble :: "nat \<Rightarrow> nat \<Rightarrow> nat \<times> nat" where
  "toDouble n d =
     (if n = 0 then (0, 0)
      else (let k = 52 + bitlen d - bitlen n;
                e = (if d * 2 ^ 52 \<le> n * 2 ^ k then k else k + 1)
            in (roundHalfEven (n * 2 ^ e) d, e)))"

text \<open>\<open>completed / total\<close>, \<open>x * 100\<close> and \<open>Math.round(x)\<close>\<close>

definition doubleDivide :: "nat \<Rightarrow> nat \<Rightarrow> nat \<times> nat" where
  "doubleDivide c t = toDouble c t"

definition doubleTimes100 :: "nat \<times> nat \<Rightarrow> nat \<times> nat" where
  "doubleTimes100 x = toDouble (fst x * 100) (2 ^ snd x)"

definition mathRound :: "nat \<times> nat \<Rightarrow> nat" where
  "mathRound x = (2 * fst x + 2 ^ snd x) div 2 ^ (snd x + 1)"

definition roundPercentage :: "nat \<Rightarrow> nat \<Rightarrow> nat" where
  "roundPercentage c t = mathRound (doubleTimes100 (doubleDivide c t))"

text \<open>
  The same expression in exact arithmetic, the reading of \<open>round(completed / total * 100)\<close>
  as a formula over the rationals, for comparison.
\<close>

definition exactPercentage :: "nat \<Rightarrow> nat \<Rightarrow> nat" where
  "exactPercentage c t = (200 * c + t) div (2 * t)"

text \<open>Which way the loop over the snapshot was left.\<close>

datatype stop_reason = Finished | StoppedByCancel | StoppedOnError

definition finishItem :: "QueueItem \<Rightarrow> bool \<Rightarrow> jsstring option \<Rightarrow> run_state \<Rightarrow> run_state" where
  "finishItem item ok lastError s =
     (if ok
      then store (\<lambda>now. updateItemStatus now (item_id item) Completed
                    (Some (noPartial\<lparr>p_completedAt := Some (Some now)\<rparr>)) None)
             (s\<lparr>rs_progress := (rs_progress s)\<lparr>successCount := successCount (rs_progress s) + 1\<rparr>\<rparr>)
      else store (\<lambda>now. updateItemStatus now (item_id item) Failed None lastError)
             (s\<lparr>rs_progress := (rs_progress s)\<lparr>failedCount := failedCount (rs_progress s) + 1\<rparr>\<rparr>))"

definition countItem :: "nat \<Rightarrow> run_state \<Rightarrow> run_state" where
  "countItem tot s =
     s\<lparr>rs_progress := (rs_progress s)
          \<lparr>completed := completed (rs_progress s) + 1,
           percentage := roundPercentage (completed (rs_progress s) + 1) tot\<rparr>\<rparr>"

text \<open>
  Calls of \<open>cancel()\<close> that arrive while the run is suspended take effect on the flag;
  the loop reads the flag only at the next item boundary.
\<close>

definition cancelRequests :: "run_env \<Rightarrow> nat \<Rightarrow> run_state \<Rightarrow> run_state" where
  "cancelRequests env i s = (if env_cancel env i then s\<lparr>rs_this := cancel (rs_this s)\<rparr> else s)"

fun processItems ::
  "BatchProcessorOptions \<Rightarrow> run_env \<Rightarrow> nat \<Rightarrow> nat \<Rightarrow> QueueItem list \<Rightarrow> run_state \<Rightarrow>
   stop_reason \<times> run_state" where
  "processItems opts env tot i [] s = (Finished, s)"
| "processItems opts env tot i (item # rest) s =
     (let s0 = cancelRequests env i s in
      if this_cancelled (rs_this s0)
      then (StoppedByCancel,
            report opts (s0\<lparr>rs_progress := (rs_progress s0)\<lparr>cancelled := True, phase := Complete\<rparr>\<rparr>))
      else
        (let s1 = s0\<lparr>rs_progress := (rs_progress s0)\<lparr>currentItem := Some (title (post item))\<rparr>\<rparr>
         in case retryLoop opts (env_attempt env i) item (maxRetriesOr1 opts) 0 None s1 of
              (ok, lastError, s2) \<Rightarrow>
                (let s3 = report opts (countItem tot (finishItem item ok lastError s2))
                 in if \<not> ok \<and> \<not> continueOnErrorOrTrue opts then (StoppedOnError, s3)
                    else processItems opts env tot (Suc i) rest s3)))"

definition initialProgress :: "nat \<Rightarrow> BatchProgress" where
  "initialProgress tot =
     \<lparr> percentage = 0, completed = 0, total = tot, successCount = 0, failedCount = 0,
       currentItem = None, phase = Idle, cancelled = False \<rparr>"

text \<open>
  \<open>processQueue\<close>, from the storage, the flags and the clock at the call. The progress
  it returns is \<open>rs_progress\<close> of the final state.
\<close>

definition startState :: "storage \<Rightarrow> BatchProcessor \<Rightarrow> nat \<Rightarrow> run_state" where
  "startState st this now =
     \<lparr> rs_storage = st,
       rs_this = this\<lparr>this_cancelled := False, this_processing := True\<rparr>,
       rs_progress = initialProgress (length (getPendingItems now st)),
       rs_events = [], rs_now = now \<rparr>"

definition endRun :: "run_state \<Rightarrow> run_state" where
  "endRun s = s\<lparr>rs_this := (rs_this s)\<lparr>this_processing := False\<rparr>\<rparr>"

definition processQueue ::
  "BatchProcessorOptions \<Rightarrow> run_env \<Rightarrow> storage \<Rightarrow> BatchProcessor \<Rightarrow> nat \<Rightarrow>
   stop_reason \<times> run_state" where
  "processQueue opts env st this now =
     (let pending = getPendingItems now st;
          tot = length pending;
          s = startState st this now
      in if tot = 0 then
           (Finished,
            endRun (report opts
              (s\<lparr>rs_progress := (rs_progress s)\<lparr>phase := Complete, percentage := 100\<rparr>\<rparr>)))
         else
           (case processItems opts env tot 0 pending s of
              (reason, s1) \<Rightarrow>
                (reason,
                 endRun (report opts
                   (s1\<lparr>rs_progress := (rs_progress s1)\<lparr>phase := Complete, currentItem := None\<rparr>\<rparr>)))))"

text \<open>\<open>calculateQueueProgress\<close> of services/queue-manager.ts\<close>

record QueueProgress =
  qp_percentage :: nat
  qp_completed :: nat
  qp_total :: nat
  qp_successCount :: nat
  qp_failedCount :: nat

definition calculateQueueProgress :: "PostQueue \<Rightarrow> QueueProgress" where
  "calculateQueueProgress queue =
     (let tot = totalItems queue;
          finished = completedItems queue + failedItems queue;
          pct = (if tot = 0 then 0 else roundPercentage finished tot)
      in \<lparr> qp_percentage = pct, qp_completed = finished, qp_total = tot,
           qp_successCount = completedItems queue, qp_failedCount = failedItems queue \<rparr>)"

text \<open>Runs used as concrete instances, after tests/integration/batch.test.ts.\<close>

definition mockPdf :: GeneratedPdf where
  "mockPdf =
     \<lparr> capturedPostId = str ''post-1'', pdfBase64 = str ''TWFu'',
       filename = str ''First Post.pdf'', sizeBytes = 3, generatedAt = 0, pageCount = 1,
       imagesIncluded = True, failedImageCount = 0 \<rparr>"

text \<open>
  \<open>noTokenEnv\<close>: nobody is signed in and the identity API gives no token.
  \<open>expiredTokenEnv\<close>: the stored token expires at 4000000, so it counts as expired
  from 3700000 on; the token is asked for at 3900000, and the user does not approve a new
  one.
\<close>

definition noTokenEnv :: run_env where
  "noTokenEnv =
     \<lparr> env_attempt = (\<lambda>i k. \<lparr> generatePdf_outcome = Inr mockPdf,
                                session_auth = None,
                                auth_clock = 5,
                                getAuthToken_outcome =
                                  \<lparr> runtime_lastError = None, callback_token = None \<rparr>,
                                fetch_outcomes = (\<lambda>n. FetchRejects NonError) \<rparr>),
       env_cancel = (\<lambda>i. False) \<rparr>"

definition expiredTokenEnv :: run_env where
  "expiredTokenEnv =
     \<lparr> env_attempt = (\<lambda>i k. \<lparr> generatePdf_outcome = Inr mockPdf,
                                session_auth =
                                  Some \<lparr> auth_accessToken = Some (str ''mock-token''),
                                         expiresAt = Some 4000000, userEmail = None,
                                         isAuthenticated = True \<rparr>,
                                auth_clock = 3900000,
                                getAuthToken_outcome =
                                  \<lparr> runtime_lastError =
                                      Some (Some (str ''The user did not approve access.'')),
                                    callback_token = None \<rparr>,
                                fetch_outcomes = (\<lambda>n. FetchRejects NonError) \<rparr>),
       env_cancel = (\<lambda>i. False) \<rparr>"

definition uploadTwice :: BatchProcessorOptions where
  "uploadTwice =
     \<lparr> batch_uploadToDrive = True, batch_folderId = None, onProgress = True,
       continueOnError = Some True, batch_maxRetries = Some 2 \<rparr>"

definition idleProcessor :: BatchProcessor where
  "idleProcessor = \<lparr> this_cancelled = False, this_processing = False \<rparr>"

definition oneItemStorage :: storage where
  "oneItemStorage =
     fst (addToQueue (str ''item-1'') 1 (createMockPost ''post-1'' ''First Post'') None)"

text \<open>
  The percentage a snapshot has in the code: the rounded share of finished items, and
  100 in the snapshot of a run that found nothing pending. \<open>percentageClaimed\<close> is
  the reading with 0 for an empty run.
\<close>

definition percentageOk :: "BatchProgress \<Rightarrow> bool" where
  "percentageOk p \<longleftrightarrow>
     percentage p = (if total p = 0 then 100 else roundPercentage (completed p) (total p))"

definition percentageClaimed :: "BatchProgress \<Rightarrow> bool" where
  "percentageClaimed p \<longleftrightarrow>
     percentage p = (if total p = 0 then 0 else roundPercentage (completed p) (total p))"

fun eventOk :: "event \<Rightarrow> bool" where
  "eventOk (ProgressReported p) = percentageOk p"
| "eventOk (Waited ms) = True"
| "eventOk (Attempt i) = True"
| "eventOk TokenRequested = True"

definition stateOk :: "nat \<Rightarrow> run_state \<Rightarrow> bool" where
  "stateOk tot s \<longleftrightarrow>
     total (rs_progress s) = tot \<and> percentageOk (rs_progress s) \<and> list_all eventOk (rs_events s)"

text \<open>The attempts and the waits among the events of a run.\<close>

fun isAttempt :: "event \<Rightarrow> bool" where
  "isAttempt (Attempt i) = True"
| "isAttempt (ProgressReported p) = False"
| "isAttempt (Waited ms) = False"
| "isAttempt TokenRequested = False"

fun waitOf :: "event \<Rightarrow> nat list" where
  "waitOf (Waited ms) = [ms]"
| "waitOf (ProgressReported p) = []"
| "waitOf (Attempt i) = []"
| "waitOf TokenRequested = []"

definition attempts :: "event list \<Rightarrow> nat" where
  "attempts es = length (filter isAttempt es)"

definition waits :: "event list \<Rightarrow> nat list" where
  "waits es = concat (map waitOf es)"



section \<open>Queue handler (background/handlers, \<open>handleProcessQueue\<close>)\<close>

text \<open>types/errors.ts\<close>

datatype ErrorCode =
    UNKNOWN_ERROR | INTERNAL_ERROR | INVALID_REQUEST | VALIDATION_ERROR
  | TAB_NOT_FOUND | NOT_REDNOTE_PAGE
  | EXTRACTION_ERROR | EXTRACTION_FAILED | NO_POST_DATA | NO_CAPTURE
  | PDF_GENERATION_ERROR | PDF_GENERATION_FAILED | IMAGE_DOWNLOAD_FAILED | FONT_LOAD_FAILED
  | NO_PDF | DOWNLOAD_ERROR
  | NOT_AUTHENTICATED | UPLOAD_FAILED | DRIVE_API_ERROR | NETWORK_ERROR
  | AUTH_CANCELLED | AUTH_FAILED | TOKEN_EXPIRED
  | QUEUE_EMPTY | BATCH_PROCESSING_FAILED | PROCESSING_IN_PROGRESS

text \<open>The two shapes of \<open>data\<close> in the responses of \<open>handleProcessQueue\<close>.\<close>

datatype response_data =
    NoItemsToProcess jsstring QueueProgress
  | ProcessingStarted jsstring nat

record Response =
  resp_success :: bool
  resp_data :: "response_data option"
  resp_error :: "jsstring option"
  resp_errorCode :: "ErrorCode option"
  resp_requestId :: "jsstring option"

definition createErrorResponse :: "ErrorCode \<Rightarrow> jsstring \<Rightarrow> jsstring option \<Rightarrow> Response" where
  "createErrorResponse code message requestId =
     \<lparr> resp_success = False, resp_data = None, resp_error = Some message,
       resp_errorCode = Some code, resp_requestId = requestId \<rparr>"

record ProcessQueuePayload =
  payload_uploadToDrive :: "bool option"
  payload_folderId :: "jsstring option"

text \<open>
  The handler returns before the run it starts has finished. The model gives the
  response, the flags of the processor when the handler returns, and the run that was
  started, if any, with its eventual result.
\<close>

definition handleProcessQueue ::
  "ProcessQueuePayload option \<Rightarrow> jsstring option \<Rightarrow> run_env \<Rightarrow> storage \<Rightarrow> BatchProcessor \<Rightarrow> nat
   \<Rightarrow> Response \<times> BatchProcessor \<times> (stop_reason \<times> run_state) option" where
  "handleProcessQueue payload requestId env st this now =
     (if isProcessing this
      then (createErrorResponse PROCESSING_IN_PROGRESS
              (str ''Batch processing already in progress'') requestId, this, None)
      else
        (let upload = (case Option.bind payload payload_uploadToDrive of
                         None \<Rightarrow> True | Some b \<Rightarrow> b);
             folder = Option.bind payload payload_folderId;
             pending = getPendingItems now st
         in if length pending = 0
            then (\<lparr> resp_success = True,
                    resp_data = Some (NoItemsToProcess (str ''No items to process'')
                      \<lparr> qp_percentage = 100, qp_completed = 0, qp_total = 0,
                        qp_successCount = 0, qp_failedCount = 0 \<rparr>),
                    resp_error = None, resp_errorCode = None, resp_requestId = requestId \<rparr>,
                  this, None)
            else (\<lparr> resp_success = True,
                    resp_data = Some (ProcessingStarted (str ''Processing started'')
                                        (length pending)),
                    resp_error = None, resp_errorCode = None, resp_requestId = requestId \<rparr>,
                  this\<lparr>this_cancelled := False, this_processing := True\<rparr>,
                  Some (processQueue
                          \<lparr> batch_uploadToDrive = upload, batch_folderId = folder,
                            onProgress = True, continueOnError = Some True,
                            batch_maxRetries = Some 2 \<rparr>
                          env st this now))))"

text \<open>A processor in the middle of a run, with a cancellation requested.\<close>

definition busyProcessor :: BatchProcessor where
  "busyProcessor = \<lparr> this_cancelled = True, this_processing = True \<rparr>"

text \<open>
  The stored item list, and the frame of a run: \<open>untouched ids st st'\<close> says that
  \<open>st'\<close> has the items of \<open>st\<close> in the same order of ids, and that every item of
  \<open>st\<close> whose id is not in \<open>ids\<close> is in \<open>st'\<close> as it was.
\<close>

definition stored_items :: "storage \<Rightarrow> QueueItem list" where
  "stored_items st = (case st of None \<Rightarrow> [] | Some queue \<Rightarrow> items queue)"

definition untouched :: "jsstring set \<Rightarrow> storage \<Rightarrow> storage \<Rightarrow> bool" where
  "untouched ids st st' \<longleftrightarrow>
     map item_id (stored_items st') = map item_id (stored_items st) \<and>
     (\<forall>x\<in>set (stored_items st). item_id x \<notin> ids \<longrightarrow> x \<in> set (stored_items st'))"

definition itemFrame :: "jsstring \<Rightarrow> run_state \<Rightarrow> run_state \<Rightarrow> bool" where
  "itemFrame i s s' \<longleftrightarrow>
     untouched {i} (rs_storage s) (rs_storage s') \<and>
     completed (rs_progress s') = completed (rs_progress s) \<and>
     cancelled (rs_progress s') = cancelled (rs_progress s)"

text \<open>
  Two runs that stop early: a cancellation requested before the first item boundary, and
  a run that stops at the first failure, with an item that fails without an attempt.
\<close>

definition cancelAtOnce :: run_env where
  "cancelAtOnce = noTokenEnv\<lparr>env_cancel := (\<lambda>i. True)\<rparr>"

definition stopOnError :: BatchProcessorOptions where
  "stopOnError =
     \<lparr> batch_uploadToDrive = False, batch_folderId = None, onProgress = True,
       continueOnError = Some False, batch_maxRetries = Some 0 \<rparr>"

definition twoItemStorage :: storage where
  "twoItemStorage =
     fst (addToQueue (str ''item-2'') 2 (createMockPost ''post-2'' ''Second Post'') oneItemStorage)"

definition threeItemStorage :: storage where
  "threeItemStorage =
     fst (addToQueue (str ''item-3'') 3 (createMockPost ''post-3'' ''Third Post'') twoItemStorage)"

text \<open>A queue of forty items, the first twenty-three of them completed.\<close>

definition numberedItem :: "QueueItemStatus \<Rightarrow> nat \<Rightarrow> QueueItem" where
  "numberedItem s i =
     (createQueueItem (str ''item-'' @ show_nat i) i
        ((createMockPost ''post'' ''Post'')\<lparr>post_id := str ''post-'' @ show_nat i\<rparr>))
     \<lparr>item_status := s\<rparr>"

definition fortyItemQueue :: PostQueue where
  "fortyItemQueue =
     recalculateTotals 5
       ((createEmptyQueue 1)\<lparr>items := map (numberedItem Completed) [0..<23]
                                       @ map (numberedItem Pending) [23..<40]\<rparr>)"

(* proofs *)

section \<open>Queue invariants\<close>

lemma count_status_sum:
  "count_status Pending xs + count_status Processing xs + count_status Completed xs
     + count_status Failed xs = length xs"
proof (induction xs)
  case Nil
  show ?case by (simp add: count_status_def)
next
  case (Cons x xs)
  then show ?case by (cases "item_status x") (simp_all add: count_status_def)
qed

lemma recalculateTotals_counts: "counts_recomputed (recalculateTotals now queue)"
  using count_status_sum [of "items queue"]
  by (simp add: counts_recomputed_def recalculateTotals_def)

lemma createEmptyQueue_counts: "counts_recomputed (createEmptyQueue now)"
  by (simp add: counts_recomputed_def createEmptyQueue_def count_status_def)

lemma apply_op_storage_ok: "storage_ok st \<Longrightarrow> storage_ok (apply_op st x)"
proof (cases x)
  case (AddToQueue uuid now p)
  assume "storage_ok st"
  then show ?thesis
    by (simp add: AddToQueue addToQueue_def Let_def storage_ok_def saveQueue_def
        recalculateTotals_counts split: option.splits)
next
  case (RemoveFromQueue now itemId)
  then show ?thesis
    by (simp add: removeFromQueue_def Let_def storage_ok_def saveQueue_def
        recalculateTotals_counts)
next
  case (UpdateItemStatus now itemId s res err)
  assume "storage_ok st"
  then show ?thesis
    by (simp add: UpdateItemStatus updateItemStatus_def Let_def storage_ok_def saveQueue_def
        recalculateTotals_counts split: option.splits)
next
  case (ClearQueue now)
  then show ?thesis
    by (simp add: clearQueue_def storage_ok_def saveQueue_def createEmptyQueue_counts)
next
  case (ClearCompletedItems now)
  then show ?thesis
    by (simp add: clearCompletedItems_def Let_def storage_ok_def saveQueue_def
        recalculateTotals_counts)
next
  case (RetryFailedItems now)
  assume "storage_ok st"
  then show ?thesis
    by (simp add: RetryFailedItems retryFailedItems_def Let_def storage_ok_def saveQueue_def
        recalculateTotals_counts split: option.splits)
qed

lemma run_ops_storage_ok: "storage_ok st \<Longrightarrow> storage_ok (run_ops ops st)"
  unfolding run_ops_def
  by (induction ops arbitrary: st) (simp_all add: apply_op_storage_ok)

lemma getQueue_counts: "storage_ok st \<Longrightarrow> counts_recomputed (getQueue now st)"
  by (cases st) (simp_all add: getQueue_def storage_ok_def createEmptyQueue_counts)

text \<open>
  Claim C1. Starting from the empty session storage, after any sequence of the six queue
  operations the stored queue has derived counts equal to the counts recomputed from
  its item list: the total is the number of items, each status count is the number of
  items with that status, and the four status counts add up to the total.
\<close>

theorem C1_counts_recomputed_after_every_operation:
  "counts_recomputed (getQueue now (run_ops ops None))"
  by (rule getQueue_counts, rule run_ops_storage_ok) (simp add: storage_ok_def)

lemma find_Some_mem: "find P xs = Some x \<Longrightarrow> x \<in> set xs \<and> P x"
  by (induction xs) (auto split: if_splits)

lemma find_None_conv: "find P xs = None \<longleftrightarrow> (\<forall>x\<in>set xs. \<not> P x)"
  by (induction xs) auto

text \<open>
  Claim C4. \<open>addToQueue\<close> is idempotent on the post id. When an item of the queue
  already refers to the post, the call returns an item of the stored list that refers
  to it and the storage is left as it was (no second item, no status reset, counts
  untouched). Otherwise the saved queue is the old item list followed by exactly one new
  item, which is the returned one: pending, without result or error, retry count 0,
  and the counts are recomputed. Adding the same post a second time changes nothing.
\<close>

theorem C4_addToQueue_idempotent:
  "((\<exists>x\<in>set (items (getQueue now st)). postId x = post_id p) \<longrightarrow>
      fst (addToQueue uuid now p st) = st \<and>
      snd (addToQueue uuid now p st) \<in> set (items (getQueue now st)) \<and>
      postId (snd (addToQueue uuid now p st)) = post_id p) \<and>
   (\<not> (\<exists>x\<in>set (items (getQueue now st)). postId x = post_id p) \<longrightarrow>
      (\<exists>queue'. fst (addToQueue uuid now p st) = Some queue' \<and>
         items queue' = items (getQueue now st) @ [snd (addToQueue uuid now p st)] \<and>
         counts_recomputed queue') \<and>
      item_id (snd (addToQueue uuid now p st)) = uuid \<and>
      postId (snd (addToQueue uuid now p st)) = post_id p \<and>
      post (snd (addToQueue uuid now p st)) = p \<and>
      item_status (snd (addToQueue uuid now p st)) = Pending \<and>
      addedAt (snd (addToQueue uuid now p st)) = now \<and>
      startedAt (snd (addToQueue uuid now p st)) = None \<and>
      item_result (snd (addToQueue uuid now p st)) = None \<and>
      item_error (snd (addToQueue uuid now p st)) = None \<and>
      retryCount (snd (addToQueue uuid now p st)) = 0) \<and>
   fst (addToQueue uuid' now' p (fst (addToQueue uuid now p st)))
     = fst (addToQueue uuid now p st)"
proof (intro conjI impI)
  assume ex: "\<exists>x\<in>set (items (getQueue now st)). postId x = post_id p"
  then obtain e where e: "find (\<lambda>item. postId item = post_id p) (items (getQueue now st)) = Some e"
    using find_None_conv [of "\<lambda>item. postId item = post_id p" "items (getQueue now st)"]
    by (cases "find (\<lambda>item. postId item = post_id p) (items (getQueue now st))") auto
  have r: "addToQueue uuid now p st = (st, e)"
    by (simp add: addToQueue_def Let_def e)
  show "fst (addToQueue uuid now p st) = st" by (simp add: r)
  show "snd (addToQueue uuid now p st) \<in> set (items (getQueue now st))"
    using find_Some_mem [OF e] by (simp add: r)
  show "postId (snd (addToQueue uuid now p st)) = post_id p"
    using find_Some_mem [OF e] by (simp add: r)
next
  assume "\<not> (\<exists>x\<in>set (items (getQueue now st)). postId x = post_id p)"
  then have n: "find (\<lambda>item. postId item = post_id p) (items (getQueue now st)) = None"
    by (simp add: find_None_conv)
  have r: "addToQueue uuid now p st =
      (Some (recalculateTotals now
         ((getQueue now st)\<lparr>items := items (getQueue now st) @ [createQueueItem uuid now p]\<rparr>)),
       createQueueItem uuid now p)"
    by (simp add: addToQueue_def Let_def n saveQueue_def)
  show "\<exists>queue'. fst (addToQueue uuid now p st) = Some queue' \<and>
         items queue' = items (getQueue now st) @ [snd (addToQueue uuid now p st)] \<and>
         counts_recomputed queue'"
    by (simp add: r recalculateTotals_counts) (simp add: recalculateTotals_def)
  show "item_id (snd (addToQueue uuid now p st)) = uuid"
    and "postId (snd (addToQueue uuid now p st)) = post_id p"
    and "post (snd (addToQueue uuid now p st)) = p"
    and "item_status (snd (addToQueue uuid now p st)) = Pending"
    and "addedAt (snd (addToQueue uuid now p st)) = now"
    and "startedAt (snd (addToQueue uuid now p st)) = None"
    and "item_result (snd (addToQueue uuid now p st)) = None"
    and "item_error (snd (addToQueue uuid now p st)) = None"
    and "retryCount (snd (addToQueue uuid now p st)) = 0"
    by (simp_all add: r createQueueItem_def)
next
  show "fst (addToQueue uuid' now' p (fst (addToQueue uuid now p st)))
     = fst (addToQueue uuid now p st)"
  proof (cases "find (\<lambda>item. postId item = post_id p) (items (getQueue now st))")
    case None
    let ?q = "recalculateTotals now
         ((getQueue now st)\<lparr>items := items (getQueue now st) @ [createQueueItem uuid now p]\<rparr>)"
    have r: "fst (addToQueue uuid now p st) = Some ?q"
      by (simp add: addToQueue_def Let_def None saveQueue_def)
    have "find (\<lambda>item. postId item = post_id p) (items (getQueue now' (Some ?q))) \<noteq> None"
      by (simp add: find_None_conv getQueue_def recalculateTotals_def createQueueItem_def)
    then show ?thesis
      by (auto simp add: r addToQueue_def [of uuid' now' p "Some ?q"] Let_def)
  next
    case (Some e)
    have r: "fst (addToQueue uuid now p st) = st"
      by (simp add: addToQueue_def Let_def Some)
    have "items (getQueue now' st) = items (getQueue now st)"
      by (cases st) (simp_all add: getQueue_def createEmptyQueue_def)
    then show ?thesis
      by (simp add: r addToQueue_def [of uuid' now' p st] Let_def Some)
  qed
qed

theorem C4_addToQueue_idempotent_witness:
  "(\<exists>x\<in>set (items (getQueue 2 (fst (addToQueue (str ''u1'') 1
        (createMockPost ''post-1'' ''First Post'') None)))).
      postId x = post_id (createMockPost ''post-1'' ''First Post'')) \<and>
   addToQueue (str ''u2'') 2 (createMockPost ''post-1'' ''First Post'')
     (fst (addToQueue (str ''u1'') 1 (createMockPost ''post-1'' ''First Post'') None))
   = (fst (addToQueue (str ''u1'') 1 (createMockPost ''post-1'' ''First Post'') None),
      createQueueItem (str ''u1'') 1 (createMockPost ''post-1'' ''First Post'')) \<and>
   \<not> (\<exists>x\<in>set (items (getQueue 1 None)).
      postId x = post_id (createMockPost ''post-1'' ''First Post'')) \<and>
   item_status (snd (addToQueue (str ''u1'') 1 (createMockPost ''post-1'' ''First Post'') None))
     = Pending"
  using C4_addToQueue_idempotent [of 2
      "fst (addToQueue (str ''u1'') 1 (createMockPost ''post-1'' ''First Post'') None)"
      "createMockPost ''post-1'' ''First Post''" "str ''u2''"]
    C4_addToQueue_idempotent [of 1 None "createMockPost ''post-1'' ''First Post''" "str ''u1''"]
  by (simp add: addToQueue_def getQueue_def createEmptyQueue_def saveQueue_def
      recalculateTotals_def createQueueItem_def Let_def)

section \<open>Upload retry policy\<close>

declare uploadAttempts.simps [simp del]

declare show_nat.simps [simp del]












section \<open>Properties of the file name\<close>































section \<open>Base64 round trip\<close>

declare binaryLoop.simps [simp del]


lemma div16_less: "b < 256 \<Longrightarrow> b div 16 < (16::nat)"
  by arith

lemma div64_less: "c < 256 \<Longrightarrow> c div 64 < (4::nat)"
  by arith

lemma div4_less: "a < 256 \<Longrightarrow> a div 4 < (64::nat)"
  by arith

lemma hi_lo_div: "y < k \<Longrightarrow> (x * k + y) div k = (x::nat)"
  by simp

lemma hi_lo_mod: "y < k \<Longrightarrow> (x * k + y) mod k = (y::nat)"
  by simp

lemma b64_arith1: "b < 256 \<Longrightarrow> (a div 4) * 4 + ((a mod 4) * 16 + b div 16) div 16 = (a::nat)"
  using hi_lo_div [OF div16_less, of b "a mod 4"] by (simp only: div_mult_mod_eq)

lemma b64_arith2:
  "b < 256 \<Longrightarrow> c < 256 \<Longrightarrow>
   (((a mod 4) * 16 + b div 16) mod 16) * 16 + ((b mod 16) * 4 + c div 64) div 4 = (b::nat)"
  using hi_lo_mod [OF div16_less, of b "a mod 4"] hi_lo_div [OF div64_less, of c "b mod 16"]
  by (simp only: div_mult_mod_eq)

lemma b64_arith3: "c < 256 \<Longrightarrow> (((b mod 16) * 4 + c div 64) mod 4) * 64 + c mod 64 = (c::nat)"
  using hi_lo_mod [OF div64_less, of c "b mod 16"] by (simp only: div_mult_mod_eq)

lemma b64_arith4: "(a div 4) * 4 + ((a mod 4) * 16) div 16 = (a::nat)"
  using hi_lo_div [of 0 16 "a mod 4"] by (simp only: add_0_right div_mult_mod_eq)

lemma b64_arith5:
  "b < 256 \<Longrightarrow> (((a mod 4) * 16 + b div 16) mod 16) * 16 + ((b mod 16) * 4) div 4 = (b::nat)"
  using hi_lo_mod [OF div16_less, of b "a mod 4"] hi_lo_div [of 0 4 "b mod 16"]
  by (simp only: add_0_right div_mult_mod_eq)

lemma binaryLoop_eq: "binaryLoop bytes i binary = binary @ map unat (drop i bytes)"
proof (induction bytes i binary rule: binaryLoop.induct)
  case (1 bytes i binary)
  show ?case
  proof (cases "i < length bytes")
    case True
    have "subarray bytes i (min (i + chunkSize) (length bytes)) = take chunkSize (drop i bytes)"
      using True by (simp add: subarray_def min_def)
    moreover have "take chunkSize (drop i bytes) @ drop (i + chunkSize) bytes = drop i bytes"
      by (metis add.commute append_take_drop_id drop_drop)
    ultimately have "fromCharCode (subarray bytes i (min (i + chunkSize) (length bytes)))
        @ map unat (drop (i + chunkSize) bytes) = map unat (drop i bytes)"
      by (metis fromCharCode_def map_append)
    with 1 True show ?thesis
      by (subst binaryLoop.simps) simp
  next
    case False
    then show ?thesis by (subst binaryLoop.simps) simp
  qed
qed

lemma b64_encode_split: "b64_encode s = map b64_char (sextets s) @ padding s"
  by (induction s rule: b64_encode.induct) simp_all

lemma padding_cases: "padding s = [] \<or> padding s = [61] \<or> padding s = [61, 61]"
  by (induction s rule: padding.induct) simp_all

lemma length_b64_encode: "length (b64_encode s) mod 4 = 0"
  by (induction s rule: b64_encode.induct) simp_all

lemma length_sextets: "length (sextets s) mod 4 \<noteq> 1"
  by (induction s rule: sextets.induct) simp_all

lemma b64_char_not_ws: "\<not> isAsciiWhitespace (b64_char v)"
  unfolding b64_char_def isAsciiWhitespace_def by (simp split: if_splits) arith

lemma b64_char_not_pad: "b64_char v \<noteq> 61"
  unfolding b64_char_def by (simp split: if_splits) arith

lemma b64_value_char: "v < 64 \<Longrightarrow> b64_value (b64_char v) = Some v"
proof -
  assume "v < 64"
  then consider "v < 26" | "26 \<le> v" "v < 52" | "52 \<le> v" "v < 62" | "v = 62" | "v = 63"
    by arith
  then show ?thesis
    by cases (auto simp: b64_char_def b64_value_def)
qed

lemma filter_b64_encode:
  "filter (\<lambda>c. \<not> isAsciiWhitespace c) (b64_encode s) = b64_encode s"
proof -
  have "\<forall>c\<in>set (b64_encode s). \<not> isAsciiWhitespace c"
    using padding_cases [of s] b64_char_not_ws
    by (auto simp: b64_encode_split) (simp_all add: isAsciiWhitespace_def)
  then show ?thesis by simp
qed

lemma strip_padding_chars:
  assumes "p = [] \<or> p = [61] \<or> p = [61, 61]"
  shows "strip_padding (map b64_char vs @ p) = map b64_char vs"
proof -
  have nl: "vs \<noteq> [] \<Longrightarrow> last (map b64_char vs) \<noteq> 61"
    by (simp add: last_map b64_char_not_pad)
  from assms consider "p = []" | "p = [61]" | "p = [61, 61]" by blast
  then show ?thesis
  proof cases
    case 1
    then show ?thesis using nl by (cases "vs = []") (simp_all add: strip_padding_def)
  next
    case 2
    then show ?thesis using nl by (cases "vs = []") (simp_all add: strip_padding_def)
  next
    case 3
    have "butlast (map b64_char vs @ [61, 61]) = map b64_char vs @ [61]"
      by (simp add: butlast_append)
    with 3 show ?thesis by (simp add: strip_padding_def)
  qed
qed

lemma those_values_chars: "\<forall>v\<in>set vs. v < 64 \<Longrightarrow> those_values (map b64_char vs) = Some vs"
  by (induction vs) (simp_all add: b64_value_char)

lemma sextet_hi_lo: "x < 4 \<Longrightarrow> y < 16 \<Longrightarrow> x * 16 + y < (64::nat)"
  by arith

lemma sextet_lo_hi: "x < 16 \<Longrightarrow> y < 4 \<Longrightarrow> x * 4 + y < (64::nat)"
  by arith

lemma sextets_bound: "\<forall>b\<in>set s. b < 256 \<Longrightarrow> \<forall>v\<in>set (sextets s). v < 64"
proof (induction s rule: sextets.induct)
  case (1 a b c rest)
  then have "a div 4 < 64" "a mod 4 * 16 + b div 16 < 64" "b mod 16 * 4 + c div 64 < 64"
      "c mod 64 < 64"
    by (simp_all add: div4_less sextet_hi_lo sextet_lo_hi div16_less div64_less)
  with 1 show ?case by simp
next
  case (2 a b)
  then have "a div 4 < 64" "a mod 4 * 16 + b div 16 < 64" "b mod 16 * 4 + 0 < 64"
    by (simp_all add: div4_less sextet_hi_lo sextet_lo_hi div16_less del: add_0_right)
  with 2 show ?case by simp
next
  case (3 a)
  then have "a div 4 < 64" "a mod 4 * 16 + 0 < 64"
    by (simp_all add: div4_less sextet_hi_lo del: add_0_right)
  with 3 show ?case by simp
next
  case 4
  show ?case by simp
qed

lemma decode_sextets: "\<forall>b\<in>set s. b < 256 \<Longrightarrow> b64_decode_values (sextets s) = s"
proof (induction s rule: sextets.induct)
  case (1 a b c rest)
  then have "b < 256" "c < 256" and ih: "b64_decode_values (sextets rest) = rest" by simp_all
  then show ?case
    using b64_arith1 [of b a] b64_arith2 [of b c a] b64_arith3 [of c b]
    by (simp only: sextets.simps b64_decode_values.simps)
next
  case (2 a b)
  then have "b < 256" by simp
  then show ?case
    using b64_arith1 [of b a] b64_arith5 [of b a]
    by (simp only: sextets.simps b64_decode_values.simps)
next
  case (3 a)
  show ?case
    using b64_arith4 [of a] by (simp only: sextets.simps b64_decode_values.simps)
next
  case 4
  show ?case by simp
qed

lemma atob_b64_encode: "\<forall>b\<in>set s. b < 256 \<Longrightarrow> atob (b64_encode s) = Some s"
proof -
  assume b: "\<forall>b\<in>set s. b < 256"
  have "strip_padding (b64_encode s) = map b64_char (sextets s)"
    using strip_padding_chars [OF padding_cases] by (simp add: b64_encode_split)
  then show ?thesis
    using length_sextets [of s]
    by (simp add: atob_def filter_b64_encode length_b64_encode
        those_values_chars [OF sextets_bound [OF b]] decode_sextets [OF b])
qed

text \<open>
  Claim C10. For every byte array, of any length, \<open>uint8ArrayToBase64\<close> returns a
  string, and \<open>base64ToUint8Array\<close> applied to that string returns the same bytes.
\<close>

theorem C10_base64_round_trip:
  "\<exists>base64. uint8ArrayToBase64 bytes = Some base64 \<and> base64ToUint8Array base64 = Some bytes"
proof -
  let ?binary = "map unat bytes"
  have bound: "\<forall>b\<in>set ?binary. b < 256"
  proof
    fix b assume "b \<in> set ?binary"
    then obtain w :: "8 word" where "b = unat w" by auto
    then show "b < 256" using unsigned_less [of w, where 'a = nat] by simp
  qed
  have "list_all (\<lambda>c. c \<le> 255) ?binary"
    unfolding list_all_iff
  proof
    fix c assume "c \<in> set ?binary"
    with bound have "c < 256" by blast
    then show "c \<le> 255" by arith
  qed
  then have enc: "uint8ArrayToBase64 bytes = Some (b64_encode ?binary)"
    by (simp add: uint8ArrayToBase64_def binaryLoop_eq btoa_def)
  have "base64ToUint8Array (b64_encode ?binary) = Some (map of_nat ?binary)"
    by (simp add: base64ToUint8Array_def atob_b64_encode [OF bound])
  then have "base64ToUint8Array (b64_encode ?binary) = Some bytes"
    by (simp add: comp_def)
  with enc show ?thesis by blast
qed

section \<open>Double-precision arithmetic of the percentage\<close>

text \<open>
  \<open>toDouble n d\<close> is a correctly rounded quotient: its significand has 53 binary
  digits, and its value \<open>m / 2 ^ e\<close> differs from \<open>n / d\<close> by at most half a unit
  of the last digit, \<open>1 / 2 ^ (e + 1)\<close>; at exactly half a unit the significand is even.
\<close>

lemma bitlen_bounds: "0 < n \<Longrightarrow> 2 ^ (bitlen n - 1) \<le> n \<and> n < 2 ^ bitlen n"
proof (induction n rule: bitlen.induct)
  case (1 n)
  show ?case
  proof (cases "n div 2 = 0")
    case True
    with 1(2) have n1: "n = 1" by (cases n) auto
    have "bitlen (Suc 0) = 1" by (simp add: bitlen.simps)
    then show ?thesis by (simp add: n1)
  next
    case False
    then have pos: "0 < n div 2" by simp
    have n0: "n \<noteq> 0" using 1(2) by simp
    from 1(1) [OF n0 pos] have lo: "2 ^ (bitlen (n div 2) - 1) \<le> n div 2"
      and hi: "n div 2 < 2 ^ bitlen (n div 2)" by simp_all
    have b: "bitlen n = Suc (bitlen (n div 2))" using n0 by (subst bitlen.simps) simp
    have bp: "0 < bitlen (n div 2)" using pos by (subst bitlen.simps) simp
    have "2 * 2 ^ (bitlen (n div 2) - 1) \<le> 2 * (n div 2)" using lo by simp
    also have "\<dots> \<le> n" by simp
    finally have l: "2 ^ (bitlen n - 1) \<le> n"
      using bp by (simp add: b power_Suc [symmetric] del: power_Suc)
    have "n < 2 * (n div 2) + 2" by arith
    also have "\<dots> \<le> 2 * 2 ^ bitlen (n div 2)" using hi by simp
    finally have h: "n < 2 ^ bitlen n" by (simp add: b)
    from l h show ?thesis by simp
  qed
qed

lemma roundHalfEven_nearest:
  assumes "0 < d"
  shows "2 * (roundHalfEven n d * d - n) \<le> d \<and> 2 * (n - roundHalfEven n d * d) \<le> d"
proof -
  define a where "a = (n div d) * d"
  define r where "r = n mod d"
  have n: "n = a + r" by (simp add: a_def r_def)
  have r: "r < d" using assms by (simp add: r_def)
  have q1: "(n div d + 1) * d = a + d" by (simp add: a_def algebra_simps)
  have c1: "2 * r < d \<Longrightarrow> 2 * (a - n) \<le> d \<and> 2 * (n - a) \<le> d" using n by arith
  have c2: "d \<le> 2 * r \<Longrightarrow> 2 * ((a + d) - n) \<le> d \<and> 2 * (n - (a + d)) \<le> d" using n r by arith
  have c3: "2 * r = d \<Longrightarrow> 2 * (a - n) \<le> d \<and> 2 * (n - a) \<le> d" using n by arith
  show ?thesis
    unfolding roundHalfEven_def Let_def
    using c1 c2 c3 by (auto simp: q1 a_def [symmetric] r_def [symmetric])
qed

lemma toDouble_scaled:
  assumes "0 < n" and "0 < d" and "bitlen n \<le> 52 + bitlen d"
  shows "2 ^ 52 * d \<le> n * 2 ^ snd (toDouble n d) \<and> n * 2 ^ snd (toDouble n d) < 2 ^ 53 * d"
proof -
  define k where "k = 52 + bitlen d - bitlen n"
  from bitlen_bounds [OF assms(1)] have nl: "2 ^ (bitlen n - 1) \<le> n" and nh: "n < 2 ^ bitlen n"
    by simp_all
  from bitlen_bounds [OF assms(2)] have dl: "2 ^ (bitlen d - 1) \<le> d" and dh: "d < 2 ^ bitlen d"
    by simp_all
  have bn: "0 < bitlen n" using assms(1) by (subst bitlen.simps) simp
  have bd: "0 < bitlen d" using assms(2) by (subst bitlen.simps) simp
  have kn: "k + bitlen n = 52 + bitlen d" using assms(3) by (simp add: k_def)
  have "n * 2 ^ k < 2 ^ bitlen n * 2 ^ k" using nh by simp
  also have "\<dots> = 2 ^ (52 + bitlen d)" by (simp add: power_add [symmetric] kn add.commute)
  also have "\<dots> = 2 ^ 53 * 2 ^ (bitlen d - 1)"
  proof -
    have "52 + bitlen d = 53 + (bitlen d - 1)" using bd by arith
    then show ?thesis by (simp only: power_add)
  qed
  also have "\<dots> \<le> 2 ^ 53 * d" using dl by simp
  finally have hi: "n * 2 ^ k < 2 ^ 53 * d" .
  have "2 ^ 51 * d < 2 ^ 51 * 2 ^ bitlen d" using dh by simp
  also have "\<dots> = 2 ^ (bitlen n - 1) * 2 ^ k"
  proof -
    have "51 + bitlen d = (bitlen n - 1) + k" using kn bn by arith
    then show ?thesis by (simp only: power_add [symmetric])
  qed
  also have "\<dots> \<le> n * 2 ^ k" using nl by simp
  finally have lo: "2 ^ 51 * d < n * 2 ^ k" .
  show ?thesis
  proof (cases "d * 2 ^ 52 \<le> n * 2 ^ k")
    case True
    then have "snd (toDouble n d) = k" using assms(1) by (simp add: toDouble_def Let_def k_def)
    with True hi show ?thesis by (simp add: mult.commute)
  next
    case False
    then have e: "snd (toDouble n d) = k + 1"
      using assms(1) by (simp add: toDouble_def Let_def k_def)
    have "n * 2 ^ (k + 1) = 2 * (n * 2 ^ k)" by simp
    moreover have "2 * (n * 2 ^ k) < 2 * (d * 2 ^ 52)" using False by simp
    moreover have "2 * (2 ^ 51 * d) < 2 * (n * 2 ^ k)" using lo by simp
    ultimately show ?thesis by (simp add: e mult.commute)
  qed
qed

lemma toDouble_normal:
  assumes "0 < n" and "0 < d" and "bitlen n \<le> 52 + bitlen d"
  shows "2 ^ 52 \<le> fst (toDouble n d) \<and> fst (toDouble n d) \<le> 2 ^ 53"
proof -
  let ?e = "snd (toDouble n d)"
  let ?x = "n * 2 ^ ?e"
  have m: "fst (toDouble n d) = roundHalfEven ?x d"
    using assms(1) by (simp add: toDouble_def Let_def)
  from toDouble_scaled [OF assms] have lo: "2 ^ 52 * d \<le> ?x" and hi: "?x < 2 ^ 53 * d"
    by simp_all
  have q: "2 ^ 52 \<le> ?x div d" "?x div d < 2 ^ 53"
    using lo hi assms(2) by (simp_all add: less_eq_div_iff_mult_less_eq div_less_iff_less_mult)
  have "?x div d \<le> roundHalfEven ?x d" "roundHalfEven ?x d \<le> ?x div d + 1"
    by (simp_all add: roundHalfEven_def Let_def)
  with q show ?thesis by (simp add: m)
qed

lemma toDouble_nearest:
  assumes "0 < d"
  shows "2 * (fst (toDouble n d) * d - n * 2 ^ snd (toDouble n d)) \<le> d \<and>
         2 * (n * 2 ^ snd (toDouble n d) - fst (toDouble n d) * d) \<le> d"
proof (cases "n = 0")
  case True
  then show ?thesis by (simp add: toDouble_def)
next
  case False
  then have "fst (toDouble n d) = roundHalfEven (n * 2 ^ snd (toDouble n d)) d"
    by (simp add: toDouble_def Let_def)
  then show ?thesis using roundHalfEven_nearest [OF assms, of "n * 2 ^ snd (toDouble n d)"] by simp
qed

lemma toDouble_tie:
  assumes "n \<noteq> 0" and "2 * (n * 2 ^ snd (toDouble n d) mod d) = d"
  shows "even (fst (toDouble n d))"
proof -
  have "fst (toDouble n d) = roundHalfEven (n * 2 ^ snd (toDouble n d)) d"
    using assms(1) by (simp add: toDouble_def Let_def)
  then show ?thesis using assms(2) by (simp add: roundHalfEven_def Let_def)
qed

lemma roundPercentage_zero: "roundPercentage 0 t = 0"
  by (simp add: roundPercentage_def doubleDivide_def doubleTimes100_def toDouble_def mathRound_def)

text \<open>Values of the percentage; for 23 of 40 it is not the exactly rounded share.\<close>

lemmas roundPercentage_eval =
  roundPercentage_def doubleDivide_def doubleTimes100_def mathRound_def toDouble_def Let_def
  roundHalfEven_def bitlen.simps

lemma roundPercentage_1_of_3: "roundPercentage 1 3 = 33"
  by (simp add: roundPercentage_eval)

lemma roundPercentage_23_of_40: "roundPercentage 23 40 = 57 \<and> exactPercentage 23 40 = 58"
  by (simp add: roundPercentage_eval exactPercentage_def)

lemma roundPercentage_29_of_200: "roundPercentage 29 200 = 14 \<and> exactPercentage 29 200 = 15"
  by (simp add: roundPercentage_eval exactPercentage_def)

section \<open>Runs of the batch processor\<close>

declare retryLoop.simps [simp del]

text \<open>
  Claim C7. When no item is pending at the start, \<open>processQueue\<close> returns a progress
  with phase \<open>complete\<close> and percentage 100, it has called the progress callback exactly
  once (when one is given) with that progress, and the storage, so every queue item, is
  as before.
\<close>

theorem C7_processQueue_nothing_pending:
  assumes "getPendingItems now st = []"
  shows "fst (processQueue opts env st this now) = Finished \<and>
         phase (rs_progress (snd (processQueue opts env st this now))) = Complete \<and>
         percentage (rs_progress (snd (processQueue opts env st this now))) = 100 \<and>
         completed (rs_progress (snd (processQueue opts env st this now))) = 0 \<and>
         total (rs_progress (snd (processQueue opts env st this now))) = 0 \<and>
         rs_storage (snd (processQueue opts env st this now)) = st \<and>
         (onProgress opts \<longrightarrow>
            rs_events (snd (processQueue opts env st this now)) =
              [ProgressReported (rs_progress (snd (processQueue opts env st this now)))]) \<and>
         (\<not> onProgress opts \<longrightarrow> rs_events (snd (processQueue opts env st this now)) = []) \<and>
         \<not> this_processing (rs_this (snd (processQueue opts env st this now)))"
  using assms
  by (simp add: processQueue_def Let_def report_def initialProgress_def startState_def endRun_def)

theorem C7_processQueue_nothing_pending_witness:
  "getPendingItems 5 None = [] \<and> onProgress uploadTwice \<and>
   percentage (rs_progress (snd (processQueue uploadTwice noTokenEnv None idleProcessor 5))) = 100 \<and>
   phase (rs_progress (snd (processQueue uploadTwice noTokenEnv None idleProcessor 5))) = Complete \<and>
   length (rs_events (snd (processQueue uploadTwice noTokenEnv None idleProcessor 5))) = 1 \<and>
   rs_storage (snd (processQueue uploadTwice noTokenEnv None idleProcessor 5)) = None"
  using C7_processQueue_nothing_pending [of 5 None uploadTwice noTokenEnv idleProcessor]
  by (simp add: getPendingItems_def getQueue_def createEmptyQueue_def uploadTwice_def)

lemma stateOk_report: "stateOk tot s \<Longrightarrow> stateOk tot (report opts s)"
  by (simp add: stateOk_def report_def)

lemma stateOk_delay: "stateOk tot s \<Longrightarrow> stateOk tot (delay ms s)"
  by (simp add: stateOk_def delay_def)

lemma stateOk_setPhase: "stateOk tot s \<Longrightarrow> stateOk tot (setPhase ph s)"
  by (simp add: stateOk_def setPhase_def percentageOk_def)

lemma stateOk_store: "stateOk tot s \<Longrightarrow> stateOk tot (store f s)"
  by (simp add: stateOk_def store_def)

lemma stateOk_events:
  "stateOk tot s \<Longrightarrow> list_all eventOk es \<Longrightarrow> stateOk tot (s\<lparr>rs_events := rs_events s @ es\<rparr>)"
  by (simp add: stateOk_def)

lemma stateOk_events_now:
  "stateOk tot s \<Longrightarrow> list_all eventOk es \<Longrightarrow>
   stateOk tot (s\<lparr>rs_events := rs_events s @ es, rs_now := n\<rparr>)"
  by (simp add: stateOk_def)

lemma list_all_Waited: "list_all eventOk (map Waited ds)"
  by (induction ds) simp_all

lemma stateOk_processItem:
  assumes "stateOk tot s"
  shows "stateOk tot (snd (processItem opts env item s))"
proof -
  let ?s1 = "store (\<lambda>now. updateItemStatus now (item_id item) Processing None None)
                 (s\<lparr>rs_events := rs_events s @ [Attempt (item_id item)]\<rparr>)"
  let ?s2 = "report opts (setPhase GeneratingPdf ?s1)"
  have s2: "stateOk tot ?s2"
    using assms by (intro stateOk_report stateOk_setPhase stateOk_store stateOk_events) simp_all
  show ?thesis
    using s2
    by (auto simp add: processItem_def Let_def list_all_Waited
        intro!: stateOk_store stateOk_events stateOk_events_now stateOk_report stateOk_setPhase
        split: sum.splits option.splits prod.splits)
qed

lemma stateOk_retryLoop:
  "stateOk tot s \<Longrightarrow> stateOk tot (snd (snd (retryLoop opts envs item maxR attempt lastError s)))"
proof (induction opts envs item maxR attempt lastError s rule: retryLoop.induct)
  case (1 opts envs item maxR attempt lastError s)
  show ?case
  proof (cases "attempt < maxR")
    case False
    then show ?thesis using 1(3) by (subst retryLoop.simps) simp
  next
    case True
    obtain r s' where p: "processItem opts (envs attempt) item s = (r, s')"
      by (cases "processItem opts (envs attempt) item s") auto
    have ok': "stateOk tot s'"
      using stateOk_processItem [OF 1(3), of opts "envs attempt" item] p by simp
    show ?thesis
    proof (cases r)
      case (Inl e)
      let ?s'' = "if attempt < maxR - 1 then delay (1000 * (attempt + 1)) s' else s'"
      have "stateOk tot ?s''" using ok' by (simp add: stateOk_delay)
      then show ?thesis
        using 1(1) [OF True p [symmetric] Inl] True p Inl
        by (subst retryLoop.simps) simp
    next
      case (Inr ok)
      then show ?thesis
        using 1(2) [OF True p [symmetric] Inr _ ok'] True p ok'
        by (subst retryLoop.simps) simp
    qed
  qed
qed


lemma stateOk_finishItem: "stateOk tot s \<Longrightarrow> 0 < tot \<Longrightarrow>
   stateOk tot (report opts (countItem tot (finishItem item ok lastError s)))"
  by (simp add: stateOk_def report_def countItem_def finishItem_def store_def percentageOk_def)

lemma cancelRequests_fields [simp]:
  "rs_progress (cancelRequests env i s) = rs_progress s"
  "rs_events (cancelRequests env i s) = rs_events s"
  "rs_storage (cancelRequests env i s) = rs_storage s"
  "rs_now (cancelRequests env i s) = rs_now s"
  by (simp_all add: cancelRequests_def)

lemma processItems_step:
  assumes "\<not> this_cancelled (rs_this (cancelRequests env i s))"
    and "retryLoop opts (env_attempt env i) item (maxRetriesOr1 opts) 0 None
           ((cancelRequests env i s)
              \<lparr>rs_progress := (rs_progress s)\<lparr>currentItem := Some (title (post item))\<rparr>\<rparr>)
         = (ok, lastError, s2)"
  shows "processItems opts env tot i (item # rest) s =
     (if \<not> ok \<and> \<not> continueOnErrorOrTrue opts
      then (StoppedOnError, report opts (countItem tot (finishItem item ok lastError s2)))
      else processItems opts env tot (Suc i) rest
             (report opts (countItem tot (finishItem item ok lastError s2))))"
  using assms by (simp add: Let_def)

lemma processItems_cancelled:
  assumes "this_cancelled (rs_this (cancelRequests env i s))"
  shows "processItems opts env tot i (item # rest) s =
     (StoppedByCancel,
      report opts ((cancelRequests env i s)
        \<lparr>rs_progress := (rs_progress s)\<lparr>cancelled := True, phase := Complete\<rparr>\<rparr>))"
  using assms by (simp add: Let_def)

lemma stateOk_cancelRequests: "stateOk tot s \<Longrightarrow> stateOk tot (cancelRequests env i s)"
  by (simp add: stateOk_def)

lemma stateOk_processItems:
  "stateOk tot s \<Longrightarrow> 0 < tot \<Longrightarrow> stateOk tot (snd (processItems opts env tot i pending s))"
proof (induction pending arbitrary: i s)
  case Nil
  then show ?case by simp
next
  case (Cons item rest)
  let ?s0 = "cancelRequests env i s"
  have s0: "stateOk tot ?s0" using Cons.prems(1) by (rule stateOk_cancelRequests)
  show ?case
  proof (cases "this_cancelled (rs_this ?s0)")
    case True
    have "stateOk tot (report opts
        (?s0\<lparr>rs_progress := (rs_progress s)\<lparr>cancelled := True, phase := Complete\<rparr>\<rparr>))"
      using s0 by (intro stateOk_report) (simp add: stateOk_def percentageOk_def)
    then show ?thesis by (simp only: processItems_cancelled [OF True] snd_conv)
  next
    case False
    let ?s1 = "?s0\<lparr>rs_progress := (rs_progress s)\<lparr>currentItem := Some (title (post item))\<rparr>\<rparr>"
    have s1: "stateOk tot ?s1" using s0 by (simp add: stateOk_def percentageOk_def)
    obtain ok lastError s2 where
      r: "retryLoop opts (env_attempt env i) item (maxRetriesOr1 opts) 0 None ?s1 = (ok, lastError, s2)"
      by (cases "retryLoop opts (env_attempt env i) item (maxRetriesOr1 opts) 0 None ?s1") auto
    have s2: "stateOk tot s2"
      using stateOk_retryLoop [OF s1, of opts "env_attempt env i" item "maxRetriesOr1 opts" 0 None] r
      by simp
    let ?s3 = "report opts (countItem tot (finishItem item ok lastError s2))"
    have s3: "stateOk tot ?s3" using s2 Cons.prems(2) by (rule stateOk_finishItem)
    have ih: "stateOk tot (snd (processItems opts env tot (Suc i) rest ?s3))"
      using s3 Cons.prems(2) by (rule Cons.IH)
    have nc: "\<not> this_cancelled (rs_this ?s0)" by (rule False)
    show ?thesis
      using s3 ih by (cases ok) (simp_all add: processItems_step [OF nc r] del: processItems.simps)
  qed
qed

lemma processQueue_run:
  assumes "getPendingItems now st \<noteq> []"
    and "processItems opts env (length (getPendingItems now st)) 0 (getPendingItems now st)
           (startState st this now) = (reason, s1)"
  shows "processQueue opts env st this now =
     (reason, endRun (report opts
        (s1\<lparr>rs_progress := (rs_progress s1)\<lparr>phase := Complete, currentItem := None\<rparr>\<rparr>)))"
  using assms by (simp add: processQueue_def Let_def)

lemma processQueue_empty:
  assumes "getPendingItems now st = []"
  shows "processQueue opts env st this now =
     (Finished, endRun (report opts
        ((startState st this now)\<lparr>rs_progress := (rs_progress (startState st this now))
            \<lparr>phase := Complete, percentage := 100\<rparr>\<rparr>)))"
  using assms by (simp add: processQueue_def Let_def)

lemma stateOk_endRun: "stateOk tot s \<Longrightarrow> stateOk tot (endRun s)"
  by (simp add: stateOk_def endRun_def)

text \<open>
  Claim C8, as amended. Every progress that \<open>processQueue\<close> reports or returns has
  percentage \<open>Math.round((completed / total) * 100)\<close> when its total is positive and
  100 when its total is 0; every result of \<open>calculateQueueProgress\<close> has percentage
  \<open>Math.round((completed / total) * 100)\<close> when its total is positive and 0 when its
  total is 0. The quotient and the product are the double-precision ones of
  \<open>roundPercentage\<close>, so the percentage is not always the exactly rounded share: 23 of
  40 give 57, where the share is 57.5.
\<close>

theorem C8_percentage_of_every_snapshot:
  "list_all eventOk (rs_events (snd (processQueue opts env st this now))) \<and>
   percentageOk (rs_progress (snd (processQueue opts env st this now))) \<and>
   qp_percentage (calculateQueueProgress queue) =
     (if qp_total (calculateQueueProgress queue) = 0 then 0
      else roundPercentage (qp_completed (calculateQueueProgress queue))
             (qp_total (calculateQueueProgress queue)))"
proof -
  let ?pending = "getPendingItems now st"
  let ?tot = "length ?pending"
  let ?s = "startState st this now"
  have run: "stateOk ?tot (snd (processQueue opts env st this now))"
  proof (cases "?pending = []")
    case True
    have "stateOk ?tot (endRun (report opts
        (?s\<lparr>rs_progress := (rs_progress ?s)\<lparr>phase := Complete, percentage := 100\<rparr>\<rparr>)))"
      using True
      by (intro stateOk_endRun stateOk_report)
         (simp add: stateOk_def startState_def initialProgress_def percentageOk_def)
    then show ?thesis by (simp only: processQueue_empty [OF True] snd_conv)
  next
    case False
    obtain reason s1 where r: "processItems opts env ?tot 0 ?pending ?s = (reason, s1)"
      by (cases "processItems opts env ?tot 0 ?pending ?s") auto
    have "stateOk ?tot ?s"
      using False
      by (simp add: stateOk_def startState_def initialProgress_def percentageOk_def
          roundPercentage_zero)
    then have "stateOk ?tot (snd (processItems opts env ?tot 0 ?pending ?s))"
      using False by (intro stateOk_processItems) simp_all
    then have "stateOk ?tot s1" by (simp add: r)
    then have "stateOk ?tot (endRun (report opts
        (s1\<lparr>rs_progress := (rs_progress s1)\<lparr>phase := Complete, currentItem := None\<rparr>\<rparr>)))"
      by (intro stateOk_endRun stateOk_report) (simp add: stateOk_def percentageOk_def)
    then show ?thesis by (simp only: processQueue_run [OF False r] snd_conv)
  qed
  have "qp_percentage (calculateQueueProgress queue) =
     (if qp_total (calculateQueueProgress queue) = 0 then 0
      else roundPercentage (qp_completed (calculateQueueProgress queue))
             (qp_total (calculateQueueProgress queue)))"
    by (simp add: calculateQueueProgress_def Let_def)
  with run show ?thesis by (simp add: stateOk_def)
qed

text \<open>
  Claim C8 as stated fails for the progress of a run that finds nothing pending: its
  total is 0 and its percentage is 100, not 0.
\<close>

theorem C8_empty_run_counterexample:
  "total (rs_progress (snd (processQueue uploadTwice noTokenEnv None idleProcessor 5))) = 0 \<and>
   percentage (rs_progress (snd (processQueue uploadTwice noTokenEnv None idleProcessor 5))) = 100 \<and>
   \<not> percentageClaimed (rs_progress (snd (processQueue uploadTwice noTokenEnv None idleProcessor 5)))"
  by (simp add: processQueue_def Let_def report_def initialProgress_def startState_def
      endRun_def getPendingItems_def getQueue_def createEmptyQueue_def percentageClaimed_def)

lemma attempts_append [simp]: "attempts (xs @ ys) = attempts xs + attempts ys"
  by (simp add: attempts_def)

lemma waits_append [simp]: "waits (xs @ ys) = waits xs @ waits ys"
  by (simp add: waits_def)

lemma attempts_simps [simp]:
  "attempts [] = 0"
  "attempts (e # es) = (if isAttempt e then 1 else 0) + attempts es"
  "waits [] = []"
  "waits (e # es) = waitOf e @ waits es"
  by (simp_all add: attempts_def waits_def)

lemma store_events [simp]: "rs_events (store f s) = rs_events s"
  by (simp add: store_def)

lemma setPhase_events [simp]: "rs_events (setPhase ph s) = rs_events s"
  by (simp add: setPhase_def)

lemma report_counts [simp]:
  "attempts (rs_events (report opts s)) = attempts (rs_events s)"
  "waits (rs_events (report opts s)) = waits (rs_events s)"
  by (simp_all add: report_def)

lemma delay_counts [simp]:
  "attempts (rs_events (delay ms s)) = attempts (rs_events s)"
  "waits (rs_events (delay ms s)) = waits (rs_events s) @ [ms]"
  by (simp_all add: delay_def)











lemma getAccessToken_before_expiry:
  "now + 300000 < 4000000 \<Longrightarrow>
   getAccessToken now (session_auth (env_attempt expiredTokenEnv i k))
     (getAuthToken_outcome (env_attempt expiredTokenEnv i k)) = Inr (str ''mock-token'')"
  by (simp add: expiredTokenEnv_def getAccessToken_def getAuthState_def Let_def
      isTokenExpired_def EXPIRATION_BUFFER_MS_def str_def)






text \<open>
  Claim C2, as amended. The rejection of a second run is the queue handler's:
  \<open>handleProcessQueue\<close>, called while a run is active, answers at once with the error
  \<open>PROCESSING_IN_PROGRESS\<close>, starts no run and leaves the flags of the processor as
  they are.
\<close>

theorem C2_handler_rejects_while_processing:
  assumes "isProcessing this"
  shows "handleProcessQueue payload requestId env st this now =
           (createErrorResponse PROCESSING_IN_PROGRESS
              (str ''Batch processing already in progress'') requestId, this, None) \<and>
         \<not> resp_success (fst (handleProcessQueue payload requestId env st this now)) \<and>
         resp_errorCode (fst (handleProcessQueue payload requestId env st this now))
           = Some PROCESSING_IN_PROGRESS"
  using assms by (simp add: handleProcessQueue_def createErrorResponse_def)

theorem C2_handler_rejects_while_processing_witness:
  "isProcessing busyProcessor \<and>
   handleProcessQueue None None noTokenEnv oneItemStorage busyProcessor 5 =
     (createErrorResponse PROCESSING_IN_PROGRESS
        (str ''Batch processing already in progress'') None, busyProcessor, None)"
  using C2_handler_rejects_while_processing [of busyProcessor None None noTokenEnv oneItemStorage 5]
  by (simp add: isProcessing_def busyProcessor_def)

text \<open>
  Claim C2 as stated fails: \<open>processQueue\<close> itself has no guard. Called on a processor
  that is in the middle of a run with a cancellation requested, it runs as it does on an
  idle processor, and it resets both flags of the run in progress.
\<close>

theorem C2_processQueue_has_no_guard_counterexample:
  "isProcessing busyProcessor \<and>
   processQueue uploadTwice noTokenEnv oneItemStorage busyProcessor 5 =
     processQueue uploadTwice noTokenEnv oneItemStorage idleProcessor 5 \<and>
   fst (processQueue uploadTwice noTokenEnv None busyProcessor 5) = Finished \<and>
   rs_this (snd (processQueue uploadTwice noTokenEnv None busyProcessor 5)) = idleProcessor \<and>
   rs_this (snd (processQueue uploadTwice noTokenEnv None busyProcessor 5)) \<noteq> busyProcessor"
proof -
  have "startState oneItemStorage busyProcessor 5 = startState oneItemStorage idleProcessor 5"
    by (simp add: startState_def busyProcessor_def idleProcessor_def)
  then have "processQueue uploadTwice noTokenEnv oneItemStorage busyProcessor 5 =
     processQueue uploadTwice noTokenEnv oneItemStorage idleProcessor 5"
    by (simp only: processQueue_def)
  moreover have "getPendingItems 5 None = []"
    by (simp add: getPendingItems_def getQueue_def createEmptyQueue_def)
  then have "fst (processQueue uploadTwice noTokenEnv None busyProcessor 5) = Finished"
    "rs_this (snd (processQueue uploadTwice noTokenEnv None busyProcessor 5)) = idleProcessor"
    by (simp_all add: processQueue_def Let_def report_def startState_def endRun_def
        busyProcessor_def idleProcessor_def)
  ultimately show ?thesis
    by (simp add: isProcessing_def) (simp add: busyProcessor_def idleProcessor_def)
qed

section \<open>What an early stop leaves untouched\<close>

lemma items_getQueue: "items (getQueue now st) = stored_items st"
  by (cases st) (simp_all add: getQueue_def stored_items_def createEmptyQueue_def)

lemma getPendingItems_stored:
  "getPendingItems now st = filter (\<lambda>item. item_status item = Pending) (stored_items st)"
  by (simp add: getPendingItems_def items_getQueue)

lemma untouched_refl: "untouched ids st st"
  by (simp add: untouched_def)

lemma untouched_trans:
  "untouched ids st st' \<Longrightarrow> untouched ids' st' st'' \<Longrightarrow> untouched (ids \<union> ids') st st''"
  by (auto simp: untouched_def)

lemma untouched_mono: "untouched ids st st' \<Longrightarrow> ids \<subseteq> ids' \<Longrightarrow> untouched ids' st st'"
  by (auto simp: untouched_def)

lemma untouched_same: "untouched ids st st' \<Longrightarrow> untouched ids st' st'' \<Longrightarrow> untouched ids st st''"
  using untouched_trans [of ids st st' ids st''] by simp

lemma map_update_first: "(\<And>x. g (f x) = g x) \<Longrightarrow> map g (update_first P f xs) = map g xs"
  by (induction xs) simp_all

lemma mem_update_first: "x \<in> set xs \<Longrightarrow> \<not> P x \<Longrightarrow> x \<in> set (update_first P f xs)"
  by (induction xs) auto

lemma item_id_updateItem: "item_id (updateItem now s res err x) = item_id x"
  by (simp add: updateItem_def Let_def split: option.splits)

lemma untouched_updateItemStatus:
  "untouched {i} st (updateItemStatus now i s res err st)"
proof (cases "find (\<lambda>x. item_id x = i) (items (getQueue now st))")
  case None
  then show ?thesis by (simp add: updateItemStatus_def Let_def untouched_refl)
next
  case (Some a)
  then have "stored_items (updateItemStatus now i s res err st) =
      update_first (\<lambda>x. item_id x = i) (updateItem now s res err) (items (getQueue now st))"
    by (simp add: updateItemStatus_def Let_def saveQueue_def recalculateTotals_def
        stored_items_def)
  then have "stored_items (updateItemStatus now i s res err st) =
      update_first (\<lambda>x. item_id x = i) (updateItem now s res err) (stored_items st)"
    by (simp only: items_getQueue)
  then show ?thesis
    by (simp add: untouched_def map_update_first item_id_updateItem mem_update_first)
qed

lemma untouched_store:
  "(\<And>now st. untouched ids st (f now st)) \<Longrightarrow> untouched ids (rs_storage s) (rs_storage (store f s))"
  by (simp add: store_def)

lemma storage_simps [simp]:
  "rs_storage (report opts s) = rs_storage s"
  "rs_storage (setPhase ph s) = rs_storage s"
  "rs_storage (delay ms s) = rs_storage s"
  "rs_storage (countItem tot s) = rs_storage s"
  "rs_storage (endRun s) = rs_storage s"
  by (simp_all add: report_def setPhase_def delay_def countItem_def endRun_def)

lemma storage_store: "rs_storage (store f s) = f (rs_now s) (rs_storage s)"
  by (simp add: store_def)

lemma itemFrame_refl: "itemFrame i s s"
  by (simp add: itemFrame_def untouched_refl)

lemma itemFrame_trans: "itemFrame i s s' \<Longrightarrow> itemFrame i s' s'' \<Longrightarrow> itemFrame i s s''"
  by (auto simp: itemFrame_def intro: untouched_same)

lemma itemFrame_store:
  "itemFrame i s (store (\<lambda>now. updateItemStatus now i st1 res err) s)"
  by (simp add: itemFrame_def store_def untouched_updateItemStatus)

lemma itemFrame_report: "itemFrame i s (report opts s)"
  by (simp add: itemFrame_def report_def untouched_refl)

lemma itemFrame_setPhase: "itemFrame i s (setPhase ph s)"
  by (simp add: itemFrame_def setPhase_def untouched_refl)

lemma itemFrame_delay: "itemFrame i s (delay ms s)"
  by (simp add: itemFrame_def delay_def untouched_refl)

lemma itemFrame_events: "itemFrame i s (s\<lparr>rs_events := es\<rparr>)"
  by (simp add: itemFrame_def untouched_refl)

lemma itemFrame_events_now: "itemFrame i s (s\<lparr>rs_events := es, rs_now := n\<rparr>)"
  by (simp add: itemFrame_def untouched_refl)

lemma untouched_processItem:
  "untouched {item_id item} (rs_storage s) (rs_storage (snd (processItem opts env item s)))"
proof -
  note u = untouched_updateItemStatus [of "item_id item"]
  have step: "untouched {item_id item} (rs_storage s) st' \<Longrightarrow>
      untouched {item_id item} (rs_storage s) (updateItemStatus now (item_id item) st1 res err st')"
    for st' now st1 res err
    using untouched_same [OF _ u] by blast
  show ?thesis
    by (auto simp add: processItem_def Let_def storage_store
        split: sum.splits option.splits prod.splits intro!: step u)
qed

lemma progress_processItem:
  "completed (rs_progress (snd (processItem opts env item s))) = completed (rs_progress s) \<and>
   cancelled (rs_progress (snd (processItem opts env item s))) = cancelled (rs_progress s)"
  by (simp add: processItem_def Let_def store_def setPhase_def report_def
      split: sum.splits option.splits prod.splits)

lemma itemFrame_processItem: "itemFrame (item_id item) s (snd (processItem opts env item s))"
  using untouched_processItem [of item s opts env] progress_processItem [of opts env item s]
  by (simp add: itemFrame_def)

lemma itemFrame_retryLoop:
  "itemFrame (item_id item) s (snd (snd (retryLoop opts envs item maxR attempt lastError s)))"
proof (induction opts envs item maxR attempt lastError s rule: retryLoop.induct)
  case (1 opts envs item maxR attempt lastError s)
  show ?case
  proof (cases "attempt < maxR")
    case False
    then show ?thesis by (subst retryLoop.simps) (simp add: itemFrame_refl)
  next
    case True
    obtain r s' where p: "processItem opts (envs attempt) item s = (r, s')"
      by (cases "processItem opts (envs attempt) item s") auto
    have u1: "itemFrame (item_id item) s s'"
      using itemFrame_processItem [of item s opts "envs attempt"] p by simp
    show ?thesis
    proof (cases r)
      case (Inl e)
      let ?s'' = "if attempt < maxR - 1 then delay (1000 * (attempt + 1)) s' else s'"
      have u2: "itemFrame (item_id item) s ?s''"
        using u1 itemFrame_delay [of "item_id item" s'] by (auto intro: itemFrame_trans)
      have "itemFrame (item_id item) ?s''
          (snd (snd (retryLoop opts envs item maxR (attempt + 1) (Some (error_message e)) ?s'')))"
        by (rule 1(1) [OF True p [symmetric] Inl])
      with u2 have "itemFrame (item_id item) s
          (snd (snd (retryLoop opts envs item maxR (attempt + 1) (Some (error_message e)) ?s'')))"
        by (rule itemFrame_trans)
      then show ?thesis
        using True p Inl by (subst retryLoop.simps) simp
    next
      case (Inr ok)
      show ?thesis
      proof (cases ok)
        case True
        with \<open>attempt < maxR\<close> p Inr u1 show ?thesis by (subst retryLoop.simps) simp
      next
        case False
        have "itemFrame (item_id item) s'
          (snd (snd (retryLoop opts envs item maxR (attempt + 1) lastError s')))"
          by (rule 1(2) [OF \<open>attempt < maxR\<close> p [symmetric] Inr False])
        with u1 have "itemFrame (item_id item) s
          (snd (snd (retryLoop opts envs item maxR (attempt + 1) lastError s')))"
          by (rule itemFrame_trans)
        then show ?thesis
          using \<open>attempt < maxR\<close> p Inr False by (subst retryLoop.simps) simp
      qed
    qed
  qed
qed

lemma untouched_finishItem:
  "untouched {item_id item} (rs_storage s) (rs_storage (finishItem item ok lastError s))"
  by (simp add: finishItem_def storage_store untouched_updateItemStatus)

lemma itemFrame_finish:
  "untouched {item_id item} (rs_storage s)
     (rs_storage (report opts (countItem tot (finishItem item ok lastError s)))) \<and>
   completed (rs_progress (report opts (countItem tot (finishItem item ok lastError s))))
     = completed (rs_progress s) + 1 \<and>
   cancelled (rs_progress (report opts (countItem tot (finishItem item ok lastError s))))
     = cancelled (rs_progress s)"
  by (simp add: untouched_finishItem)
     (simp add: report_def countItem_def finishItem_def store_def)

lemma processItems_frame:
  "\<exists>k\<le>length pending.
     completed (rs_progress (snd (processItems opts env tot i pending s)))
       = completed (rs_progress s) + k \<and>
     untouched (item_id ` set (take k pending)) (rs_storage s)
       (rs_storage (snd (processItems opts env tot i pending s))) \<and>
     (fst (processItems opts env tot i pending s) = StoppedByCancel \<longrightarrow>
        k < length pending \<and> cancelled (rs_progress (snd (processItems opts env tot i pending s)))) \<and>
     (fst (processItems opts env tot i pending s) = StoppedOnError \<longrightarrow>
        0 < k \<and> \<not> continueOnErrorOrTrue opts)"
proof (induction pending arbitrary: i s)
  case Nil
  show ?case by (simp add: untouched_refl)
next
  case (Cons item rest)
  let ?s0 = "cancelRequests env i s"
  show ?case
  proof (cases "this_cancelled (rs_this ?s0)")
    case True
    have "untouched (item_id ` set (take 0 (item # rest))) (rs_storage s)
        (rs_storage (snd (processItems opts env tot i (item # rest) s)))"
      by (simp add: processItems_cancelled [OF True] untouched_refl del: processItems.simps)
    moreover have "completed (rs_progress (snd (processItems opts env tot i (item # rest) s)))
        = completed (rs_progress s) + 0"
      "cancelled (rs_progress (snd (processItems opts env tot i (item # rest) s)))"
      "fst (processItems opts env tot i (item # rest) s) = StoppedByCancel"
      by (simp_all add: processItems_cancelled [OF True] report_def del: processItems.simps)
    ultimately show ?thesis
      by (intro exI [of _ 0]) (simp del: processItems.simps)
  next
    case False
    let ?s1 = "?s0\<lparr>rs_progress := (rs_progress s)\<lparr>currentItem := Some (title (post item))\<rparr>\<rparr>"
    obtain ok lastError s2 where
      r: "retryLoop opts (env_attempt env i) item (maxRetriesOr1 opts) 0 None ?s1 = (ok, lastError, s2)"
      by (cases "retryLoop opts (env_attempt env i) item (maxRetriesOr1 opts) 0 None ?s1") auto
    have f2: "itemFrame (item_id item) ?s1 s2"
      using itemFrame_retryLoop [of item ?s1 opts "env_attempt env i" "maxRetriesOr1 opts" 0 None] r
      by simp
    let ?s3 = "report opts (countItem tot (finishItem item ok lastError s2))"
    have u3: "untouched {item_id item} (rs_storage s) (rs_storage ?s3)"
      and c3: "completed (rs_progress ?s3) = completed (rs_progress s) + 1"
      and x3: "cancelled (rs_progress ?s3) = cancelled (rs_progress s)"
      using f2 itemFrame_finish [of item s2 opts tot ok lastError]
      by (auto simp: itemFrame_def intro: untouched_same)
    have step: "processItems opts env tot i (item # rest) s =
       (if \<not> ok \<and> \<not> continueOnErrorOrTrue opts then (StoppedOnError, ?s3)
        else processItems opts env tot (Suc i) rest ?s3)"
      by (rule processItems_step [OF False r])
    show ?thesis
    proof (cases "\<not> ok \<and> \<not> continueOnErrorOrTrue opts")
      case True
      then have res: "processItems opts env tot i (item # rest) s = (StoppedOnError, ?s3)"
        using step by (simp del: processItems.simps)
      show ?thesis
        using u3 c3 True by (intro exI [of _ 1]) (simp add: res del: processItems.simps)
    next
      case stop: False
      then have res: "processItems opts env tot i (item # rest) s =
          processItems opts env tot (Suc i) rest ?s3"
        using step by (auto simp del: processItems.simps)
      from Cons.IH [of "Suc i" ?s3] obtain k where k: "k \<le> length rest"
        and ck: "completed (rs_progress (snd (processItems opts env tot (Suc i) rest ?s3)))
           = completed (rs_progress ?s3) + k"
        and uk: "untouched (item_id ` set (take k rest)) (rs_storage ?s3)
           (rs_storage (snd (processItems opts env tot (Suc i) rest ?s3)))"
        and xk: "fst (processItems opts env tot (Suc i) rest ?s3) = StoppedByCancel \<longrightarrow>
           k < length rest \<and> cancelled (rs_progress (snd (processItems opts env tot (Suc i) rest ?s3)))"
        and ek: "fst (processItems opts env tot (Suc i) rest ?s3) = StoppedOnError \<longrightarrow>
           0 < k \<and> \<not> continueOnErrorOrTrue opts"
        by blast
      have "untouched ({item_id item} \<union> item_id ` set (take k rest)) (rs_storage s)
           (rs_storage (snd (processItems opts env tot (Suc i) rest ?s3)))"
        using u3 uk by (rule untouched_trans)
      then have u: "untouched (item_id ` set (take (Suc k) (item # rest))) (rs_storage s)
           (rs_storage (snd (processItems opts env tot (Suc i) rest ?s3)))"
        by simp
      show ?thesis
        using k ck c3 u xk ek
        by (intro exI [of _ "Suc k"]) (simp add: res del: processItems.simps)
    qed
  qed
qed

lemma distinct_take_drop_ids:
  assumes "distinct (map f xs)" and "x \<in> set (drop k xs)"
  shows "f x \<notin> f ` set (take k xs)"
proof -
  have "distinct (map f (take k xs) @ map f (drop k xs))"
    using assms(1) by (metis append_take_drop_id map_append)
  then have "set (map f (take k xs)) \<inter> set (map f (drop k xs)) = {}"
    by simp
  with assms(2) show ?thesis by auto
qed

lemma processQueue_frame:
  assumes "distinct (map item_id (stored_items st))"
  shows "map item_id (stored_items (rs_storage (snd (processQueue opts env st this now))))
           = map item_id (stored_items st) \<and>
         (\<forall>x\<in>set (drop (completed (rs_progress (snd (processQueue opts env st this now))))
                      (getPendingItems now st)).
            x \<in> set (stored_items (rs_storage (snd (processQueue opts env st this now))))) \<and>
         phase (rs_progress (snd (processQueue opts env st this now))) = Complete \<and>
         (fst (processQueue opts env st this now) = StoppedByCancel \<longrightarrow>
            cancelled (rs_progress (snd (processQueue opts env st this now))) \<and>
            completed (rs_progress (snd (processQueue opts env st this now)))
              < length (getPendingItems now st)) \<and>
         (fst (processQueue opts env st this now) = StoppedOnError \<longrightarrow>
            \<not> continueOnErrorOrTrue opts)"
proof (cases "getPendingItems now st = []")
  case True
  show ?thesis
    by (simp add: processQueue_empty [OF True] True)
       (simp add: report_def endRun_def startState_def)
next
  case False
  let ?pending = "getPendingItems now st"
  let ?s = "startState st this now"
  obtain reason s1 where r: "processItems opts env (length ?pending) 0 ?pending ?s = (reason, s1)"
    by (cases "processItems opts env (length ?pending) 0 ?pending ?s") auto
  from processItems_frame [of ?pending opts env "length ?pending" 0 ?s] r
  obtain k where k: "k \<le> length ?pending"
    and ck: "completed (rs_progress s1) = k"
    and uk: "untouched (item_id ` set (take k ?pending)) st (rs_storage s1)"
    and xk: "reason = StoppedByCancel \<longrightarrow> k < length ?pending \<and> cancelled (rs_progress s1)"
    and ek: "reason = StoppedOnError \<longrightarrow> \<not> continueOnErrorOrTrue opts"
    by (auto simp: startState_def initialProgress_def)
  let ?final = "endRun (report opts
        (s1\<lparr>rs_progress := (rs_progress s1)\<lparr>phase := Complete, currentItem := None\<rparr>\<rparr>))"
  have run: "processQueue opts env st this now = (reason, ?final)"
    by (rule processQueue_run [OF False r])
  have fin: "rs_storage ?final = rs_storage s1" "completed (rs_progress ?final) = k"
    "cancelled (rs_progress ?final) = cancelled (rs_progress s1)"
    "phase (rs_progress ?final) = Complete"
    by (simp_all add: report_def endRun_def ck)
  have dp: "distinct (map item_id ?pending)"
    using assms by (simp add: getPendingItems_stored distinct_map_filter)
  have rest: "x \<in> set (stored_items (rs_storage s1))" if "x \<in> set (drop k ?pending)" for x
  proof -
    have "item_id x \<notin> item_id ` set (take k ?pending)"
      using dp that by (rule distinct_take_drop_ids)
    moreover have "x \<in> set (stored_items st)"
      using that by (auto simp: getPendingItems_stored dest: in_set_dropD)
    ultimately show ?thesis using uk by (simp add: untouched_def)
  qed
  show ?thesis
    using uk xk ek rest by (simp add: run fin untouched_def)
qed

lemma processQueue_total:
  "total (rs_progress (snd (processQueue opts env st this now))) = length (getPendingItems now st)"
proof (cases "getPendingItems now st = []")
  case True
  show ?thesis
    by (simp add: processQueue_empty [OF True] True)
       (simp add: report_def endRun_def startState_def initialProgress_def True)
next
  case False
  let ?pending = "getPendingItems now st"
  let ?s = "startState st this now"
  obtain reason s1 where r: "processItems opts env (length ?pending) 0 ?pending ?s = (reason, s1)"
    by (cases "processItems opts env (length ?pending) 0 ?pending ?s") auto
  have "stateOk (length ?pending) ?s"
    using False
    by (simp add: stateOk_def startState_def initialProgress_def percentageOk_def
        roundPercentage_zero)
  then have "stateOk (length ?pending) (snd (processItems opts env (length ?pending) 0 ?pending ?s))"
    using False by (intro stateOk_processItems) simp_all
  then have "total (rs_progress s1) = length ?pending" by (simp add: r stateOk_def)
  then show ?thesis
    by (simp add: processQueue_run [OF False r]) (simp add: report_def endRun_def)
qed

text \<open>
  Claim C6. Let the ids of the stored items be distinct. After \<open>processQueue\<close>, every
  item of the snapshot that was not reached (the snapshot without its first
  \<open>completed\<close> items) is in the storage exactly as it was, so still pending and with
  no field changed, and the storage holds the same items in the same order. When the run
  stopped at a raised cancellation flag, the returned progress has \<open>cancelled\<close> set
  and phase \<open>complete\<close>, and at least one item was not reached. A stop at a failed
  item happens only with \<open>continueOnError = false\<close>.
\<close>

theorem C6_early_stop_leaves_the_rest_pending:
  assumes "distinct (map item_id (stored_items st))"
  shows "(\<forall>x\<in>set (drop (completed (rs_progress (snd (processQueue opts env st this now))))
                      (getPendingItems now st)).
            x \<in> set (stored_items (rs_storage (snd (processQueue opts env st this now)))) \<and>
            item_status x = Pending) \<and>
         map item_id (stored_items (rs_storage (snd (processQueue opts env st this now))))
           = map item_id (stored_items st) \<and>
         (fst (processQueue opts env st this now) = StoppedByCancel \<longrightarrow>
            cancelled (rs_progress (snd (processQueue opts env st this now))) \<and>
            phase (rs_progress (snd (processQueue opts env st this now))) = Complete \<and>
            completed (rs_progress (snd (processQueue opts env st this now)))
              < total (rs_progress (snd (processQueue opts env st this now)))) \<and>
         (fst (processQueue opts env st this now) = StoppedOnError \<longrightarrow>
            \<not> continueOnErrorOrTrue opts \<and>
            phase (rs_progress (snd (processQueue opts env st this now))) = Complete)"
proof -
  have pend: "item_status x = Pending" if "x \<in> set (drop k (getPendingItems now st))" for x k
    using that by (auto simp: getPendingItems_stored dest: in_set_dropD)
  show ?thesis
    using processQueue_frame [OF assms, of opts env this now]
      processQueue_total [of opts env st this now] pend
    by auto
qed

lemma pending_one:
  "getPendingItems 5 oneItemStorage =
     [createQueueItem (str ''item-1'') 1 (createMockPost ''post-1'' ''First Post'')]"
  by code_simp

lemma pending_two:
  "getPendingItems 5 twoItemStorage =
     [createQueueItem (str ''item-1'') 1 (createMockPost ''post-1'' ''First Post''),
      createQueueItem (str ''item-2'') 2 (createMockPost ''post-2'' ''Second Post'')]"
  by code_simp

lemma distinct_one: "distinct (map item_id (stored_items oneItemStorage))"
  by code_simp

lemma distinct_two: "distinct (map item_id (stored_items twoItemStorage))"
  by code_simp

lemma run_cancelled_at_once:
  "fst (processQueue uploadTwice cancelAtOnce oneItemStorage idleProcessor 5) = StoppedByCancel \<and>
   completed (rs_progress (snd (processQueue uploadTwice cancelAtOnce oneItemStorage idleProcessor 5)))
     = 0"
proof -
  let ?s = "startState oneItemStorage idleProcessor 5"
  let ?item = "createQueueItem (str ''item-1'') 1 (createMockPost ''post-1'' ''First Post'')"
  have c: "this_cancelled (rs_this (cancelRequests cancelAtOnce 0 ?s))"
    by (simp add: cancelRequests_def cancelAtOnce_def startState_def cancel_def)
  have ne: "getPendingItems 5 oneItemStorage \<noteq> []" by (simp add: pending_one)
  have "processItems uploadTwice cancelAtOnce (length (getPendingItems 5 oneItemStorage)) 0
          (getPendingItems 5 oneItemStorage) ?s =
        (StoppedByCancel, report uploadTwice ((cancelRequests cancelAtOnce 0 ?s)
           \<lparr>rs_progress := (rs_progress ?s)\<lparr>cancelled := True, phase := Complete\<rparr>\<rparr>))"
    unfolding pending_one by (rule processItems_cancelled [OF c])
  from processQueue_run [OF ne this] show ?thesis
    by (simp add: report_def endRun_def startState_def initialProgress_def)
qed

lemma run_stopped_on_error:
  "fst (processQueue stopOnError noTokenEnv twoItemStorage idleProcessor 5) = StoppedOnError \<and>
   completed (rs_progress (snd (processQueue stopOnError noTokenEnv twoItemStorage idleProcessor 5)))
     = 1"
proof -
  let ?s = "startState twoItemStorage idleProcessor 5"
  let ?item = "createQueueItem (str ''item-1'') 1 (createMockPost ''post-1'' ''First Post'')"
  let ?item2 = "createQueueItem (str ''item-2'') 2 (createMockPost ''post-2'' ''Second Post'')"
  let ?s1 = "(cancelRequests noTokenEnv 0 ?s)
              \<lparr>rs_progress := (rs_progress ?s)\<lparr>currentItem := Some (title (post ?item))\<rparr>\<rparr>"
  have c: "\<not> this_cancelled (rs_this (cancelRequests noTokenEnv 0 ?s))"
    by (simp add: cancelRequests_def noTokenEnv_def startState_def)
  have ne: "getPendingItems 5 twoItemStorage \<noteq> []" by (simp add: pending_two)
  have m: "maxRetriesOr1 stopOnError = 0" "\<not> continueOnErrorOrTrue stopOnError"
    by (simp_all add: maxRetriesOr1_def continueOnErrorOrTrue_def stopOnError_def)
  have r: "retryLoop stopOnError (env_attempt noTokenEnv 0) ?item (maxRetriesOr1 stopOnError) 0 None ?s1
      = (False, None, ?s1)"
    by (subst retryLoop.simps) (simp add: m)
  have gen: "processItems stopOnError noTokenEnv tot 0 [?item, ?item2] ?s =
        (StoppedOnError, report stopOnError (countItem tot (finishItem ?item False None ?s1)))"
    for tot
    using processItems_step [OF c r, of tot "[?item2]"] m(2)
    by (simp del: processItems.simps)
  have "processItems stopOnError noTokenEnv (length (getPendingItems 5 twoItemStorage)) 0
          (getPendingItems 5 twoItemStorage) ?s =
        (StoppedOnError, report stopOnError (countItem (length (getPendingItems 5 twoItemStorage))
           (finishItem ?item False None ?s1)))"
    by (simp only: pending_two gen)
  from processQueue_run [OF ne this] show ?thesis
    by (simp add: report_def endRun_def countItem_def finishItem_def store_def startState_def
        initialProgress_def)
qed

theorem C6_early_stop_leaves_the_rest_pending_witness:
  "distinct (map item_id (stored_items oneItemStorage)) \<and>
   fst (processQueue uploadTwice cancelAtOnce oneItemStorage idleProcessor 5) = StoppedByCancel \<and>
   createQueueItem (str ''item-1'') 1 (createMockPost ''post-1'' ''First Post'')
     \<in> set (stored_items (rs_storage
          (snd (processQueue uploadTwice cancelAtOnce oneItemStorage idleProcessor 5)))) \<and>
   cancelled (rs_progress (snd (processQueue uploadTwice cancelAtOnce oneItemStorage idleProcessor 5))) \<and>
   distinct (map item_id (stored_items twoItemStorage)) \<and>
   fst (processQueue stopOnError noTokenEnv twoItemStorage idleProcessor 5) = StoppedOnError \<and>
   createQueueItem (str ''item-2'') 2 (createMockPost ''post-2'' ''Second Post'')
     \<in> set (stored_items (rs_storage
          (snd (processQueue stopOnError noTokenEnv twoItemStorage idleProcessor 5)))) \<and>
   \<not> continueOnErrorOrTrue stopOnError"
  using C6_early_stop_leaves_the_rest_pending [OF distinct_one, of uploadTwice cancelAtOnce
      idleProcessor 5]
    C6_early_stop_leaves_the_rest_pending [OF distinct_two, of stopOnError noTokenEnv
      idleProcessor 5]
    run_cancelled_at_once run_stopped_on_error distinct_one distinct_two
  by (simp add: pending_one pending_two)

section \<open>A run and a queue with rounded percentages\<close>

lemma pending_three:
  "getPendingItems 5 threeItemStorage =
     [createQueueItem (str ''item-1'') 1 (createMockPost ''post-1'' ''First Post''),
      createQueueItem (str ''item-2'') 2 (createMockPost ''post-2'' ''Second Post''),
      createQueueItem (str ''item-3'') 3 (createMockPost ''post-3'' ''Third Post'')]"
  by code_simp

lemma count_numbered:
  "count_status s (map (numberedItem s') xs) = (if s = s' then length xs else 0)"
  by (induction xs) (simp_all add: count_status_def numberedItem_def)

lemma count_append: "count_status s (xs @ ys) = count_status s xs + count_status s ys"
  by (simp add: count_status_def)

lemma fortyItemQueue_counts:
  "qp_total (calculateQueueProgress fortyItemQueue) = 40 \<and>
   qp_completed (calculateQueueProgress fortyItemQueue) = 23"
  by (simp add: calculateQueueProgress_def fortyItemQueue_def recalculateTotals_def Let_def
      count_append count_numbered del: upt_rec_numeral)

lemma run_stopped_after_one_of_three:
  "fst (processQueue stopOnError noTokenEnv threeItemStorage idleProcessor 5) = StoppedOnError \<and>
   completed (rs_progress (snd (processQueue stopOnError noTokenEnv threeItemStorage idleProcessor 5)))
     = 1"
proof -
  let ?s = "startState threeItemStorage idleProcessor 5"
  let ?item = "createQueueItem (str ''item-1'') 1 (createMockPost ''post-1'' ''First Post'')"
  let ?rest = "[createQueueItem (str ''item-2'') 2 (createMockPost ''post-2'' ''Second Post''),
      createQueueItem (str ''item-3'') 3 (createMockPost ''post-3'' ''Third Post'')]"
  let ?s1 = "(cancelRequests noTokenEnv 0 ?s)
              \<lparr>rs_progress := (rs_progress ?s)\<lparr>currentItem := Some (title (post ?item))\<rparr>\<rparr>"
  have c: "\<not> this_cancelled (rs_this (cancelRequests noTokenEnv 0 ?s))"
    by (simp add: cancelRequests_def noTokenEnv_def startState_def)
  have ne: "getPendingItems 5 threeItemStorage \<noteq> []" by (simp add: pending_three)
  have m: "maxRetriesOr1 stopOnError = 0" "\<not> continueOnErrorOrTrue stopOnError"
    by (simp_all add: maxRetriesOr1_def continueOnErrorOrTrue_def stopOnError_def)
  have r: "retryLoop stopOnError (env_attempt noTokenEnv 0) ?item (maxRetriesOr1 stopOnError) 0 None ?s1
      = (False, None, ?s1)"
    by (subst retryLoop.simps) (simp add: m)
  have gen: "processItems stopOnError noTokenEnv tot 0 (?item # ?rest) ?s =
        (StoppedOnError, report stopOnError (countItem tot (finishItem ?item False None ?s1)))"
    for tot
    using processItems_step [OF c r, of tot ?rest] m(2)
    by (simp del: processItems.simps)
  have "processItems stopOnError noTokenEnv (length (getPendingItems 5 threeItemStorage)) 0
          (getPendingItems 5 threeItemStorage) ?s =
        (StoppedOnError, report stopOnError (countItem (length (getPendingItems 5 threeItemStorage))
           (finishItem ?item False None ?s1)))"
    by (simp only: pending_three gen)
  from processQueue_run [OF ne this] show ?thesis
    by (simp add: report_def endRun_def countItem_def finishItem_def store_def startState_def
        initialProgress_def)
qed

theorem C8_percentage_of_every_snapshot_witness:
  "total (rs_progress (snd (processQueue stopOnError noTokenEnv threeItemStorage idleProcessor 5))) = 3 \<and>
   completed (rs_progress (snd (processQueue stopOnError noTokenEnv threeItemStorage idleProcessor 5))) = 1 \<and>
   percentage (rs_progress (snd (processQueue stopOnError noTokenEnv threeItemStorage idleProcessor 5))) = 33 \<and>
   qp_total (calculateQueueProgress fortyItemQueue) = 40 \<and>
   qp_completed (calculateQueueProgress fortyItemQueue) = 23 \<and>
   qp_percentage (calculateQueueProgress fortyItemQueue) = 57"
proof -
  let ?p = "rs_progress (snd (processQueue stopOnError noTokenEnv threeItemStorage idleProcessor 5))"
  note all = C8_percentage_of_every_snapshot [of stopOnError noTokenEnv threeItemStorage
      idleProcessor 5 fortyItemQueue]
  have t: "total ?p = 3"
    using processQueue_total [of stopOnError noTokenEnv threeItemStorage idleProcessor 5]
    by (simp add: pending_three)
  have c: "completed ?p = 1" using run_stopped_after_one_of_three by simp
  have "percentage ?p = roundPercentage 1 3"
    using all t c by (simp add: percentageOk_def)
  then have p: "percentage ?p = 33" by (simp only: roundPercentage_1_of_3)
  have "qp_percentage (calculateQueueProgress fortyItemQueue) = roundPercentage 23 40"
    using all fortyItemQueue_counts by simp
  then have q: "qp_percentage (calculateQueueProgress fortyItemQueue) = 57"
    by (simp only: roundPercentage_23_of_40)
  from t c p q fortyItemQueue_counts show ?thesis by simp
qed

end
